theory Spec2Isabelle
  imports Complex_Main
begin

section \<open>Data model (src/types.ts)\<close>

text \<open>
  A JavaScript \<open>number\<close>, as far as the program looks at it. The program only compares
  similarity scores (greater-than and strict equality), so a double is represented by its
  value: not-a-number, one of the two infinities, or a real. Both zeros are \<open>Fin 0\<close>,
  which is what the two comparisons see.
\<close>

datatype number = NaN | NegInf | Fin real | PosInf

text \<open>The comparison \<open>a > b\<close> of two numbers: false as soon as one side is NaN.\<close>

fun js_gt :: "number \<Rightarrow> number \<Rightarrow> bool" where
  "js_gt NaN b = False"
| "js_gt a NaN = False"
| "js_gt NegInf b = False"
| "js_gt (Fin x) NegInf = True"
| "js_gt (Fin x) (Fin y) = (y < x)"
| "js_gt (Fin x) PosInf = False"
| "js_gt PosInf PosInf = False"
| "js_gt PosInf b = True"

text \<open>Strict equality \<open>a === b\<close> of two numbers: NaN equals nothing, itself included.\<close>

fun js_eq :: "number \<Rightarrow> number \<Rightarrow> bool" where
  "js_eq NaN b = False"
| "js_eq a NaN = False"
| "js_eq a b = (a = b)"

text \<open>The field \<open>id\<close> of the source is \<open>id'\<close> here.\<close>

record DatasetEntry =
  id' :: int
  name :: string
  title :: string
  summary :: string
  skills :: "string list"

record DatasetEntryWithEmbedding = DatasetEntry +
  embedding :: "real list"

record MatchResult =
  match :: DatasetEntryWithEmbedding
  score :: number

text \<open>
  The exceptions that leave a function of the program: the \<open>Error('No match found')\<close> of
  \<open>findBestMatch\<close>, and whatever \<open>generateEmbedding\<close> throws.
\<close>

datatype error = NoMatchFound | EmbeddingRequestFailed

section \<open>Similarity scorer\<close>

text \<open>
  Modelled from the spec: \<open>cosineSimilarity\<close> is the default export of the package
  \<open>cos-similarity\<close>, which is not part of the sources. The specification gives it as
  the dot product divided by the product of the magnitudes, the division being not-a-number
  when a magnitude is zero. The matcher below takes the scorer as a parameter; this
  definition is used where a concrete scorer is needed.
\<close>

definition dot :: "real list \<Rightarrow> real list \<Rightarrow> real" where
  "dot a b = sum_list (map (\<lambda>(x, y). x * y) (zip a b))"

text \<open>
  Modelled from the spec: the similarity scorer of the package \<open>cos-similarity\<close>, missing
  from the sources, as the specification words it.
\<close>

definition cosineSimilarity :: "real list \<Rightarrow> real list \<Rightarrow> number" where
  "cosineSimilarity a b =
     (let magnitude = sqrt (dot a a) * sqrt (dot b b)
      in if magnitude = 0 then NaN else Fin (dot a b / magnitude))"

section \<open>Matcher\<close>

type_synonym scorer = "real list \<Rightarrow> real list \<Rightarrow> number"

text \<open>
  The \<open>for ... of\<close> loop of \<open>findBestMatch\<close>, with its two variables \<open>bestMatch\<close>
  (\<open>None\<close> is \<open>null\<close>) and \<open>bestScore\<close>.
\<close>

fun findBestMatch_loop ::
  "scorer \<Rightarrow> DatasetEntryWithEmbedding \<Rightarrow> DatasetEntryWithEmbedding list \<Rightarrow>
   DatasetEntryWithEmbedding option \<Rightarrow> number \<Rightarrow> DatasetEntryWithEmbedding option \<times> number" where
  "findBestMatch_loop cs entryA [] bestMatch bestScore = (bestMatch, bestScore)"
| "findBestMatch_loop cs entryA (entryB # rest) bestMatch bestScore =
     (let similarity = cs (embedding entryA) (embedding entryB)
      in if js_gt similarity bestScore
         then findBestMatch_loop cs entryA rest (Some entryB) similarity
         else findBestMatch_loop cs entryA rest bestMatch bestScore)"

definition findBestMatch ::
  "scorer \<Rightarrow> DatasetEntryWithEmbedding \<Rightarrow> DatasetEntryWithEmbedding list \<Rightarrow> error + MatchResult" where
  "findBestMatch cs entryA datasetBWithEmbeddings =
     (case findBestMatch_loop cs entryA datasetBWithEmbeddings None (Fin (- 1)) of
        (None, bestScore) \<Rightarrow> Inl NoMatchFound
      | (Some bestMatch, bestScore) \<Rightarrow> Inr \<lparr>match = bestMatch, score = bestScore\<rparr>)"

section \<open>Strings\<close>

text \<open>\<open>Array.prototype.join\<close> on an array of strings.\<close>

fun join :: "string \<Rightarrow> string list \<Rightarrow> string" where
  "join sep [] = []"
| "join sep [x] = x"
| "join sep (x # y # ys) = x @ sep @ join sep (y # ys)"

text \<open>
  \<open>String.prototype.trim\<close>: the white space and the line terminators of ECMAScript are
  removed at both ends. A string is its sequence of bytes in UTF-8 here, so each of these
  characters is the byte sequence that encodes it: U+0009 to U+000D, U+0020, U+00A0,
  U+1680, U+2000 to U+200A, U+2028, U+2029, U+202F, U+205F, U+3000 and U+FEFF.
\<close>

definition whiteSpace :: "string list" where
  "whiteSpace =
     [[CHR 0x09], [CHR 0x0A], [CHR 0x0B], [CHR 0x0C], [CHR 0x0D], [CHR 0x20],
      [CHR 0xC2, CHR 0xA0],
      [CHR 0xE1, CHR 0x9A, CHR 0x80],
      [CHR 0xE2, CHR 0x80, CHR 0x80], [CHR 0xE2, CHR 0x80, CHR 0x81],
      [CHR 0xE2, CHR 0x80, CHR 0x82], [CHR 0xE2, CHR 0x80, CHR 0x83],
      [CHR 0xE2, CHR 0x80, CHR 0x84], [CHR 0xE2, CHR 0x80, CHR 0x85],
      [CHR 0xE2, CHR 0x80, CHR 0x86], [CHR 0xE2, CHR 0x80, CHR 0x87],
      [CHR 0xE2, CHR 0x80, CHR 0x88], [CHR 0xE2, CHR 0x80, CHR 0x89],
      [CHR 0xE2, CHR 0x80, CHR 0x8A],
      [CHR 0xE2, CHR 0x80, CHR 0xA8], [CHR 0xE2, CHR 0x80, CHR 0xA9],
      [CHR 0xE2, CHR 0x80, CHR 0xAF],
      [CHR 0xE2, CHR 0x81, CHR 0x9F],
      [CHR 0xE3, CHR 0x80, CHR 0x80],
      [CHR 0xEF, CHR 0xBB, CHR 0xBF]]"

text \<open>\<open>dropLeading ps s\<close> removes from the start of \<open>s\<close>, as long as there is one, a
  sequence of \<open>ps\<close>; \<open>trim\<close> does so at the start, and at the end on the reversed string.\<close>

definition startsWith :: "string \<Rightarrow> string \<Rightarrow> bool" where
  "startsWith s p = (p \<noteq> [] \<and> take (length p) s = p)"

function dropLeading :: "string list \<Rightarrow> string \<Rightarrow> string" where
  "dropLeading ps s =
     (case find (startsWith s) ps of
        None \<Rightarrow> s
      | Some p \<Rightarrow> dropLeading ps (drop (length p) s))"
  by pat_completeness auto
termination
proof (relation "measure (\<lambda>(ps, s). length s)")
  show "wf (measure (\<lambda>(ps, s). length s))" by simp
next
  fix ps :: "string list" and s p :: string
  assume "find (startsWith s) ps = Some p"
  then have "startsWith s p" by (auto simp: find_Some_iff)
  then have "p \<noteq> []" "take (length p) s = p" by (simp_all add: startsWith_def)
  then have "0 < length p" by simp
  moreover have "length p \<le> length s"
  proof -
    from \<open>take (length p) s = p\<close> have "length (take (length p) s) = length p"
      by (simp only:)
    then show ?thesis by simp
  qed
  ultimately have "length s - length p < length s" by arith
  then show "((ps, drop (length p) s), (ps, s)) \<in> measure (\<lambda>(ps, s). length s)"
    by simp
qed

declare dropLeading.simps [simp del]

definition trim :: "string \<Rightarrow> string" where
  "trim s = rev (dropLeading (map rev whiteSpace) (rev (dropLeading whiteSpace s)))"

definition createTextRepresentation :: "DatasetEntry \<Rightarrow> string" where
  "createTextRepresentation entry =
     ''Name: '' @ name entry @ [CHR 0x0A] @
     ''Title: '' @ title entry @ [CHR 0x0A] @
     ''Summary: '' @ summary entry @ [CHR 0x0A] @
     ''Skills: '' @ join '', '' (skills entry)"

section \<open>The remote services and the state of a run\<close>

text \<open>
  The objects that \<open>compareDatasets\<close> hands to the diff summarization stage have the three
  fields \<open>entryA\<close>, \<open>match\<close> and \<open>similarityScore\<close>; a \<open>ComparisonResult\<close> has these and
  \<open>diffSummary\<close>, where \<open>None\<close> is \<open>null\<close>.
\<close>

record Comparison =
  entryA :: DatasetEntry
  match :: DatasetEntry
  similarityScore :: number

record ComparisonResult = Comparison +
  diffSummary :: "string option"

record ComparisonReport =
  comparisonDate :: string
  totalComparisons :: nat
  results :: "ComparisonResult list"

text \<open>
  The two remote services are parameters. A service answers the \<open>k\<close>-th request it
  receives (counting from 0) for a given text: \<open>None\<close> when the call throws, otherwise
  the part of the response that the program reads, which is the list of the embeddings
  in \<open>response.data\<close> for the embedding service and the list of
  \<open>message.content\<close> (\<open>None\<close> for \<open>null\<close>) in \<open>response.choices\<close> for the completion
  service. Nothing is assumed about the answers, so they may depend on the order in which
  the requests were sent and on anything else.
\<close>

type_synonym embeddings_api = "nat \<Rightarrow> string \<Rightarrow> real list list option"
type_synonym completions_api = "nat \<Rightarrow> string \<Rightarrow> string option list option"

text \<open>
  What a run does to the outside: the requests sent to each service, in the order they
  were sent, the number of rate-limit pauses taken, and the report file. Console output
  is left out.
\<close>

record world =
  embeddingRequests :: "string list"
  completionRequests :: "string list"
  pauses :: nat
  reportFile :: "ComparisonReport option"

definition BATCH_SIZE :: nat where
  "BATCH_SIZE = 10"

text \<open>\<open>xs.slice(a, b)\<close> for \<open>0 \<le> a \<le> b\<close>.\<close>

definition slice :: "'a list \<Rightarrow> nat \<Rightarrow> nat \<Rightarrow> 'a list" where
  "slice xs a b = take (b - a) (drop a xs)"

text \<open>
  \<open>Promise.all\<close> on promises that have settled: the values in the order of the promises,
  or a rejection when one of them rejected. It rejects with the reason of the promise that
  rejected first in time; the embedding stage, the only place where a promise can reject,
  has a single reason in this model, so the choice does not show.
\<close>

fun promise_all :: "('e + 'a) list \<Rightarrow> 'e + 'a list" where
  "promise_all [] = Inr []"
| "promise_all (Inl e # ps) = Inl e"
| "promise_all (Inr v # ps) = (case promise_all ps of Inl e \<Rightarrow> Inl e | Inr vs \<Rightarrow> Inr (v # vs))"

section \<open>Embedding stage\<close>

text \<open>
  \<open>generateEmbedding\<close> sends one request and reads \<open>response.data[0].embedding\<close>. It
  throws when the call throws, and when \<open>data\<close> is empty (reading a property of
  \<open>undefined\<close>).
\<close>

definition generateEmbedding ::
  "embeddings_api \<Rightarrow> string \<Rightarrow> world \<Rightarrow> (error + real list) \<times> world" where
  "generateEmbedding api text w =
     (let w' = w\<lparr>embeddingRequests := embeddingRequests w @ [text]\<rparr>
      in case api (length (embeddingRequests w)) text of
           None \<Rightarrow> (Inl EmbeddingRequestFailed, w')
         | Some [] \<Rightarrow> (Inl EmbeddingRequestFailed, w')
         | Some (e # data) \<Rightarrow> (Inr e, w'))"

text \<open>The function mapped over a batch: \<open>{ ...entry, embedding }\<close>.\<close>

definition embedEntry ::
  "embeddings_api \<Rightarrow> DatasetEntry \<Rightarrow> world \<Rightarrow> (error + DatasetEntryWithEmbedding) \<times> world" where
  "embedEntry api entry w =
     (let text = createTextRepresentation entry;
          (r, w') = generateEmbedding api text w
      in (case r of
            Inl e \<Rightarrow> Inl e
          | Inr e \<Rightarrow> Inr \<lparr>id' = id' entry, name = name entry, title = title entry,
                          summary = summary entry, skills = skills entry, embedding = e\<rparr>,
          w'))"

text \<open>
  \<open>batch.map(async ...)\<close>: each function runs up to its request before the next one starts,
  so the requests of a batch are sent in the order of the batch, all of them, before any
  answer is looked at.
\<close>

fun embedBatch ::
  "embeddings_api \<Rightarrow> DatasetEntry list \<Rightarrow> world \<Rightarrow>
   (error + DatasetEntryWithEmbedding) list \<times> world" where
  "embedBatch api [] w = ([], w)"
| "embedBatch api (entry # batch) w =
     (let (p, w1) = embedEntry api entry w;
          (ps, w2) = embedBatch api batch w1
      in (p # ps, w2))"

text \<open>
  The loop of \<open>generateEmbeddingsWithBatching\<close> with its variables \<open>i\<close> and \<open>embeddings\<close>,
  for a batch size \<open>B\<close>. With \<open>B = 0\<close> the loop of the source never ends: not returning is
  \<open>None\<close>.
\<close>

partial_function (option) generateEmbeddings_loop ::
  "nat \<Rightarrow> embeddings_api \<Rightarrow> DatasetEntry list \<Rightarrow> nat \<Rightarrow> DatasetEntryWithEmbedding list \<Rightarrow>
   world \<Rightarrow> ((error + DatasetEntryWithEmbedding list) \<times> world) option" where
  "generateEmbeddings_loop B api entries i embeddings w =
     (if i < length entries then
        (let batch = slice entries i (i + B);
             (batchPromises, w1) = embedBatch api batch w
         in case promise_all batchPromises of
              Inl e \<Rightarrow> Some (Inl e, w1)
            | Inr batchResults \<Rightarrow>
                generateEmbeddings_loop B api entries (i + B) (embeddings @ batchResults)
                  (if i + B < length entries then w1\<lparr>pauses := Suc (pauses w1)\<rparr> else w1))
      else Some (Inr embeddings, w))"

declare generateEmbeddings_loop.simps [code]

text \<open>
  \<open>generateEmbeddingsWithBatching\<close>; the batch size \<open>B\<close> is the constant \<open>BATCH_SIZE\<close>
  in the source, which is what \<open>compareDatasets\<close> passes.
\<close>

definition generateEmbeddingsWithBatching ::
  "nat \<Rightarrow> embeddings_api \<Rightarrow> DatasetEntry list \<Rightarrow> world \<Rightarrow>
   ((error + DatasetEntryWithEmbedding list) \<times> world) option" where
  "generateEmbeddingsWithBatching B api entries w =
     generateEmbeddings_loop B api entries 0 [] w"

section \<open>Matching every source entry\<close>

text \<open>
  The \<open>map\<close> of \<open>compareDatasets\<close> that calls \<open>findBestMatch\<close> for every source entry and
  copies the five fields of both entries. An exception of \<open>findBestMatch\<close> leaves the
  \<open>map\<close> at once.
\<close>

definition strip :: "DatasetEntryWithEmbedding \<Rightarrow> DatasetEntry" where
  "strip e = \<lparr>id' = id' e, name = name e, title = title e, summary = summary e, skills = skills e\<rparr>"

fun findMatches ::
  "scorer \<Rightarrow> DatasetEntryWithEmbedding list \<Rightarrow> DatasetEntryWithEmbedding list \<Rightarrow>
   error + Comparison list" where
  "findMatches cs [] datasetBWithEmbeddings = Inr []"
| "findMatches cs (a # as) datasetBWithEmbeddings =
     (case findBestMatch cs a datasetBWithEmbeddings of
        Inl e \<Rightarrow> Inl e
      | Inr r \<Rightarrow>
          (case findMatches cs as datasetBWithEmbeddings of
             Inl e \<Rightarrow> Inl e
           | Inr rest \<Rightarrow>
               Inr (\<lparr>entryA = strip a, match = strip (MatchResult.match r),
                      similarityScore = score r\<rparr> # rest)))"

section \<open>Diff summarization stage\<close>

definition diffPrompt :: "DatasetEntry \<Rightarrow> DatasetEntry \<Rightarrow> string" where
  "diffPrompt a b =
     ''Compare these two user profiles and provide a brief summary of the differences:'' @
     [CHR 0x0A, CHR 0x0A] @
     ''Profile A:'' @ [CHR 0x0A] @
     ''Name: '' @ name a @ [CHR 0x0A] @
     ''Title: '' @ title a @ [CHR 0x0A] @
     ''Summary: '' @ summary a @ [CHR 0x0A] @
     ''Skills: '' @ join '', '' (skills a) @ [CHR 0x0A, CHR 0x0A] @
     ''Profile B:'' @ [CHR 0x0A] @
     ''Name: '' @ name b @ [CHR 0x0A] @
     ''Title: '' @ title b @ [CHR 0x0A] @
     ''Summary: '' @ summary b @ [CHR 0x0A] @
     ''Skills: '' @ join '', '' (skills b) @ [CHR 0x0A, CHR 0x0A] @
     ''Provide a concise summary of the key differences (e.g., '' @ [CHR 0x22] @
     ''Skills updated, title changed from '' @ [CHR 0x27] @ ''Dev'' @ [CHR 0x27] @
     '' to '' @ [CHR 0x27] @ ''Sr. Dev'' @ [CHR 0x27, CHR 0x22] @
     ''). Focus on meaningful changes.''"

text \<open>
  \<open>generateDiffSummary\<close>: one request; \<open>response.choices[0].message.content?.trim() ?? null\<close>.
  The \<open>catch\<close> turns every exception of the \<open>try\<close> block into the fixed text: the call that
  throws, and the read of \<open>choices[0].message\<close> when \<open>choices\<close> is empty. The result is
  \<open>None\<close> for \<open>null\<close>.
\<close>

definition generateDiffSummary ::
  "completions_api \<Rightarrow> DatasetEntry \<Rightarrow> DatasetEntry \<Rightarrow> world \<Rightarrow> string option \<times> world" where
  "generateDiffSummary api a b w =
     (let prompt = diffPrompt a b;
          w' = w\<lparr>completionRequests := completionRequests w @ [prompt]\<rparr>
      in case api (length (completionRequests w)) prompt of
           None \<Rightarrow> (Some ''Error generating diff summary'', w')
         | Some [] \<Rightarrow> (Some ''Error generating diff summary'', w')
         | Some (content # choices) \<Rightarrow>
             (case content of None \<Rightarrow> (None, w') | Some s \<Rightarrow> (Some (trim s), w')))"

text \<open>The function mapped over a batch of comparisons.\<close>

definition summarizeComparison ::
  "completions_api \<Rightarrow> Comparison \<Rightarrow> world \<Rightarrow> ComparisonResult \<times> world" where
  "summarizeComparison api comparison w =
     (let (d, w') =
            (if js_eq (similarityScore comparison) (Fin 1)
             then (Some ''No differences'', w)
             else generateDiffSummary api (entryA comparison) (match comparison) w)
      in (\<lparr>entryA = entryA comparison, match = match comparison,
            similarityScore = similarityScore comparison, diffSummary = d\<rparr>, w'))"

fun summarizeBatch ::
  "completions_api \<Rightarrow> Comparison list \<Rightarrow> world \<Rightarrow> ComparisonResult list \<times> world" where
  "summarizeBatch api [] w = ([], w)"
| "summarizeBatch api (comparison # batch) w =
     (let (r, w1) = summarizeComparison api comparison w;
          (rs, w2) = summarizeBatch api batch w1
      in (r # rs, w2))"

text \<open>
  The loop of \<open>generateDiffSummariesWithBatching\<close> for a batch size \<open>B\<close>; \<open>resultsAcc\<close>
  is the variable \<open>results\<close> of the source. None of the
  promises of a batch can reject, so \<open>Promise.all\<close> gives their values in order.
\<close>

partial_function (option) generateDiffSummaries_loop ::
  "nat \<Rightarrow> completions_api \<Rightarrow> Comparison list \<Rightarrow> nat \<Rightarrow> ComparisonResult list \<Rightarrow>
   world \<Rightarrow> (ComparisonResult list \<times> world) option" where
  "generateDiffSummaries_loop B api comparisons i resultsAcc w =
     (if i < length comparisons then
        (let batch = slice comparisons i (i + B);
             (batchResults, w1) = summarizeBatch api batch w
         in generateDiffSummaries_loop B api comparisons (i + B) (resultsAcc @ batchResults)
              (if i + B < length comparisons then w1\<lparr>pauses := Suc (pauses w1)\<rparr> else w1))
      else Some (resultsAcc, w))"

declare generateDiffSummaries_loop.simps [code]

definition generateDiffSummariesWithBatching ::
  "nat \<Rightarrow> completions_api \<Rightarrow> Comparison list \<Rightarrow> world \<Rightarrow>
   (ComparisonResult list \<times> world) option" where
  "generateDiffSummariesWithBatching B api comparisons w =
     generateDiffSummaries_loop B api comparisons 0 [] w"

section \<open>The run\<close>

text \<open>
  \<open>compareDatasets\<close>, from the two parsed datasets on. Reading and parsing the two input
  files happens before, and the time stamp \<open>now\<close> of the report is taken from the clock;
  both are inputs here. An exception ends the run where it is thrown: the result is
  \<open>Inl\<close> and the steps after it are not taken. Writing the report file is the last step
  that changes the world; the write itself is taken to succeed.
\<close>

definition compareDatasets ::
  "scorer \<Rightarrow> embeddings_api \<Rightarrow> completions_api \<Rightarrow> string \<Rightarrow>
   DatasetEntry list \<Rightarrow> DatasetEntry list \<Rightarrow> world \<Rightarrow> ((error + unit) \<times> world) option" where
  "compareDatasets cs eapi capi now datasetA datasetB w =
     (case generateEmbeddingsWithBatching BATCH_SIZE eapi datasetA w of
        None \<Rightarrow> None
      | Some (Inl e, w1) \<Rightarrow> Some (Inl e, w1)
      | Some (Inr datasetAWithEmbeddings, w1) \<Rightarrow>
          (case generateEmbeddingsWithBatching BATCH_SIZE eapi datasetB w1 of
             None \<Rightarrow> None
           | Some (Inl e, w2) \<Rightarrow> Some (Inl e, w2)
           | Some (Inr datasetBWithEmbeddings, w2) \<Rightarrow>
               (case findMatches cs datasetAWithEmbeddings datasetBWithEmbeddings of
                  Inl e \<Rightarrow> Some (Inl e, w2)
                | Inr comparisons \<Rightarrow>
                    (case generateDiffSummariesWithBatching BATCH_SIZE capi comparisons w2 of
                       None \<Rightarrow> None
                     | Some (finalResults, w3) \<Rightarrow>
                         (let report = \<lparr>comparisonDate = now,
                                         totalComparisons = length finalResults,
                                         results = finalResults\<rparr>
                          in Some (Inr (), w3\<lparr>reportFile := Some report\<rparr>))))))"

section \<open>Notation for the statements\<close>

text \<open>
  The requests that the diff summarization stage sends for a list of comparisons: one
  prompt for each comparison whose score is not exactly 1, in the order of the list.
\<close>

abbreviation promptsFor :: "Comparison list \<Rightarrow> string list" where
  "promptsFor cs \<equiv>
     map (\<lambda>c. diffPrompt (entryA c) (match c))
       (filter (\<lambda>c. \<not> js_eq (similarityScore c) (Fin 1)) cs)"

section \<open>Example inputs\<close>

definition sourceEntry :: DatasetEntryWithEmbedding where
  "sourceEntry = \<lparr>id' = 1, name = ''A'', title = ''Eng'', summary = ''builds things'',
                    skills = [''Go''], embedding = [1]\<rparr>"

definition alignedEntry :: DatasetEntryWithEmbedding where
  "alignedEntry = \<lparr>id' = 2, name = ''A2'', title = ''Eng'', summary = ''builds things'',
                     skills = [''Go''], embedding = [1]\<rparr>"

definition oppositeEntry :: DatasetEntryWithEmbedding where
  "oppositeEntry = \<lparr>id' = 3, name = ''B'', title = ''Ops'', summary = ''runs things'',
                      skills = [''Bash''], embedding = [- 1]\<rparr>"

definition oppositeEntry2 :: DatasetEntryWithEmbedding where
  "oppositeEntry2 = \<lparr>id' = 4, name = ''C'', title = ''QA'', summary = ''tests things'',
                       skills = [''Perl''], embedding = [- 2]\<rparr>"

definition profileA :: DatasetEntry where
  "profileA = \<lparr>id' = 1, name = ''A'', title = ''Eng'', summary = ''builds things'',
                 skills = [''Go'']\<rparr>"

definition profileB :: DatasetEntry where
  "profileB = \<lparr>id' = 2, name = ''A2'', title = ''Eng'', summary = ''builds things'',
                 skills = [''Go'']\<rparr>"

definition profileC :: DatasetEntry where
  "profileC = \<lparr>id' = 3, name = ''C'', title = ''QA'', summary = ''tests things'',
                 skills = [''Perl'', ''Tcl'']\<rparr>"

text \<open>An embedding service that always throws, one that answers every request, one that
  throws on its second request, and one whose answers alternate between two orthogonal
  vectors.\<close>

definition failingEmbeddings :: embeddings_api where
  "failingEmbeddings = (\<lambda>k text. None)"

definition constantEmbeddings :: embeddings_api where
  "constantEmbeddings = (\<lambda>k text. Some [[1]])"

definition secondRequestFails :: embeddings_api where
  "secondRequestFails = (\<lambda>k text. if k = 1 then None else Some [[1]])"

definition alternatingEmbeddings :: embeddings_api where
  "alternatingEmbeddings = (\<lambda>k text. Some [if even k then [1, 0] else [0, 1]])"

text \<open>A completion service that always throws, and one that always answers with a
  message whose content is \<open>null\<close>.\<close>

definition failingCompletions :: completions_api where
  "failingCompletions = (\<lambda>k prompt. None)"

definition nullCompletions :: completions_api where
  "nullCompletions = (\<lambda>k prompt. Some [None])"

definition pairIdentical :: Comparison where
  "pairIdentical = \<lparr>entryA = profileA, match = profileB, similarityScore = Fin 1\<rparr>"

definition pairDifferent :: Comparison where
  "pairDifferent = \<lparr>entryA = profileA, match = profileC, similarityScore = Fin (1 / 2)\<rparr>"

definition reportDate :: string where
  "reportDate = ''2025-01-01T00:00:00.000Z''"

definition embeddedA :: DatasetEntryWithEmbedding where
  "embeddedA = \<lparr>id' = 1, name = ''A'', title = ''Eng'', summary = ''builds things'',
                  skills = [''Go''], embedding = [1]\<rparr>"

definition world0 :: world where
  "world0 = \<lparr>embeddingRequests = [], completionRequests = [], pauses = 0, reportFile = None\<rparr>"

text \<open>The world after the entry \<open>profileA\<close> alone has been embedded, and the world and
  the report at the end of the run on \<open>[profileA]\<close> and \<open>[profileB]\<close> with alternating
  embeddings and a failing completion service.\<close>

definition worldA :: world where
  "worldA = \<lparr>embeddingRequests = [createTextRepresentation profileA],
              completionRequests = [], pauses = 0, reportFile = None\<rparr>"

definition exampleReport :: ComparisonReport where
  "exampleReport =
     \<lparr>comparisonDate = reportDate, totalComparisons = 1,
      results = [\<lparr>entryA = profileA, match = profileB, similarityScore = Fin 0,
                   diffSummary = Some ''Error generating diff summary''\<rparr>]\<rparr>"

definition worldAfterRun :: world where
  "worldAfterRun =
     \<lparr>embeddingRequests = [createTextRepresentation profileA, createTextRepresentation profileB],
      completionRequests = [diffPrompt profileA profileB], pauses = 0,
      reportFile = Some exampleReport\<rparr>"

section \<open>Comparison of numbers\<close>

lemma js_gt_irrefl: "\<not> js_gt a a"
  by (cases a) auto

lemma js_gt_trans: "js_gt c b \<Longrightarrow> js_gt b a \<Longrightarrow> js_gt c a"
  by (cases a; cases b; cases c) auto

lemma js_gt_asym: "js_gt b a \<Longrightarrow> \<not> js_gt a b"
  by (cases a; cases b) auto

lemma js_gt_not_NaN: "js_gt a b \<Longrightarrow> a \<noteq> NaN \<and> b \<noteq> NaN"
  by (cases a; cases b) auto

lemma js_gt_below: "\<not> js_gt x a \<Longrightarrow> js_gt b a \<Longrightarrow> \<not> js_gt x b \<and> x \<noteq> b"
  by (cases a; cases b; cases x) auto

section \<open>The matcher's scan\<close>

text \<open>
  What the scan leaves in \<open>bestMatch\<close> and \<open>bestScore\<close>: either nothing beat the score it
  started with and both are unchanged, or the target list splits around the entry it
  returns, whose score beats the start, is beaten by no target, and is reached by no
  target before it.
\<close>

lemma findBestMatch_loop_result:
  "findBestMatch_loop cs a xs bm bs = (bm', bs') \<Longrightarrow>
     (bm' = bm \<and> bs' = bs \<and> (\<forall>x\<in>set xs. \<not> js_gt (cs (embedding a) (embedding x)) bs)) \<or>
     (\<exists>pre m post. xs = pre @ m # post \<and> bm' = Some m \<and>
        bs' = cs (embedding a) (embedding m) \<and> js_gt bs' bs \<and>
        (\<forall>x\<in>set pre. \<not> js_gt (cs (embedding a) (embedding x)) bs' \<and>
                       cs (embedding a) (embedding x) \<noteq> bs') \<and>
        (\<forall>x\<in>set post. \<not> js_gt (cs (embedding a) (embedding x)) bs'))"
proof (induction xs arbitrary: bm bs)
  case Nil
  then show ?case by simp
next
  case (Cons x xs)
  let ?s = "cs (embedding a) (embedding x)"
  show ?case
  proof (cases "js_gt ?s bs")
    case True
    with Cons.prems have run: "findBestMatch_loop cs a xs (Some x) ?s = (bm', bs')"
      by simp
    from Cons.IH [OF run] show ?thesis
    proof (elim disjE exE conjE)
      assume "bm' = Some x" "bs' = ?s"
        and "\<forall>y\<in>set xs. \<not> js_gt (cs (embedding a) (embedding y)) ?s"
      with True have "x # xs = [] @ x # xs \<and> bm' = Some x \<and> bs' = ?s \<and> js_gt bs' bs \<and>
        (\<forall>y\<in>set []. \<not> js_gt (cs (embedding a) (embedding y)) bs' \<and>
                       cs (embedding a) (embedding y) \<noteq> bs') \<and>
        (\<forall>y\<in>set xs. \<not> js_gt (cs (embedding a) (embedding y)) bs')"
        by simp
      then show ?thesis by blast
    next
      fix pre m post
      assume a: "xs = pre @ m # post" "bm' = Some m" "bs' = cs (embedding a) (embedding m)"
        "js_gt bs' ?s"
        "\<forall>y\<in>set pre. \<not> js_gt (cs (embedding a) (embedding y)) bs' \<and>
                       cs (embedding a) (embedding y) \<noteq> bs'"
        "\<forall>y\<in>set post. \<not> js_gt (cs (embedding a) (embedding y)) bs'"
      from a(4) True have "js_gt bs' bs" by (rule js_gt_trans)
      moreover from a(4) have "\<not> js_gt ?s bs'" "?s \<noteq> bs'"
        using js_gt_asym js_gt_irrefl by auto
      ultimately have "x # xs = (x # pre) @ m # post \<and> bm' = Some m \<and>
        bs' = cs (embedding a) (embedding m) \<and> js_gt bs' bs \<and>
        (\<forall>y\<in>set (x # pre). \<not> js_gt (cs (embedding a) (embedding y)) bs' \<and>
                       cs (embedding a) (embedding y) \<noteq> bs') \<and>
        (\<forall>y\<in>set post. \<not> js_gt (cs (embedding a) (embedding y)) bs')"
        using a by simp
      then show ?thesis by blast
    qed
  next
    case False
    with Cons.prems have run: "findBestMatch_loop cs a xs bm bs = (bm', bs')"
      by simp
    from Cons.IH [OF run] show ?thesis
    proof (elim disjE exE conjE)
      assume "bm' = bm" "bs' = bs"
        and "\<forall>y\<in>set xs. \<not> js_gt (cs (embedding a) (embedding y)) bs"
      with False show ?thesis by simp
    next
      fix pre m post
      assume a: "xs = pre @ m # post" "bm' = Some m" "bs' = cs (embedding a) (embedding m)"
        "js_gt bs' bs"
        "\<forall>y\<in>set pre. \<not> js_gt (cs (embedding a) (embedding y)) bs' \<and>
                       cs (embedding a) (embedding y) \<noteq> bs'"
        "\<forall>y\<in>set post. \<not> js_gt (cs (embedding a) (embedding y)) bs'"
      from js_gt_below [OF False a(4)] have "\<not> js_gt ?s bs'" "?s \<noteq> bs'" by auto
      then have "x # xs = (x # pre) @ m # post \<and> bm' = Some m \<and>
        bs' = cs (embedding a) (embedding m) \<and> js_gt bs' bs \<and>
        (\<forall>y\<in>set (x # pre). \<not> js_gt (cs (embedding a) (embedding y)) bs' \<and>
                       cs (embedding a) (embedding y) \<noteq> bs') \<and>
        (\<forall>y\<in>set post. \<not> js_gt (cs (embedding a) (embedding y)) bs')"
        using a by simp
      then show ?thesis by blast
    qed
  qed
qed

text \<open>
  A returned match is the first target, in the order of the target list, whose similarity
  is the returned score, and no target has a greater similarity.
\<close>

lemma findBestMatch_Inr:
  assumes "findBestMatch cs a datasetB = Inr r"
  shows "\<exists>pre post. datasetB = pre @ MatchResult.match r # post \<and>
        score r = cs (embedding a) (embedding (MatchResult.match r)) \<and>
        js_gt (score r) (Fin (- 1)) \<and>
        (\<forall>x\<in>set pre. \<not> js_gt (cs (embedding a) (embedding x)) (score r) \<and>
                       cs (embedding a) (embedding x) \<noteq> score r) \<and>
        (\<forall>x\<in>set post. \<not> js_gt (cs (embedding a) (embedding x)) (score r))"
proof -
  obtain bm' bs' where run: "findBestMatch_loop cs a datasetB None (Fin (- 1)) = (bm', bs')"
    by (cases "findBestMatch_loop cs a datasetB None (Fin (- 1))")
  with assms obtain m where m: "bm' = Some m" "r = \<lparr>MatchResult.match = m, score = bs'\<rparr>"
    by (auto simp: findBestMatch_def split: option.splits)
  from findBestMatch_loop_result [OF run] m show ?thesis
    by auto
qed

text \<open>The call throws exactly when no target has a similarity greater than \<open>-1\<close>.\<close>

lemma findBestMatch_Inl_iff:
  "findBestMatch cs a datasetB = Inl e \<longleftrightarrow>
     e = NoMatchFound \<and>
     (\<forall>x\<in>set datasetB. \<not> js_gt (cs (embedding a) (embedding x)) (Fin (- 1)))"
proof -
  obtain bm' bs' where run: "findBestMatch_loop cs a datasetB None (Fin (- 1)) = (bm', bs')"
    by (cases "findBestMatch_loop cs a datasetB None (Fin (- 1))")
  from findBestMatch_loop_result [OF run] run show ?thesis
    by (cases bm') (auto simp: findBestMatch_def)
qed

lemma findBestMatch_singleton:
  "findBestMatch cs a [b] =
     (if js_gt (cs (embedding a) (embedding b)) (Fin (- 1))
      then Inr \<lparr>MatchResult.match = b, score = cs (embedding a) (embedding b)\<rparr>
      else Inl NoMatchFound)"
  by (simp add: findBestMatch_def)

section \<open>Claims about the matcher\<close>

text \<open>
  Claim C6. For every source entry, \<open>findBestMatch\<close> with an empty target sequence fails
  with the error \<open>No match found\<close>; it returns no result.
\<close>

theorem findBestMatch_empty_targets: "findBestMatch cs a [] = Inl NoMatchFound"
  by (simp add: findBestMatch_def)

text \<open>
  Claim C9. Whenever \<open>findBestMatch\<close> returns, the returned score is strictly greater than
  \<open>-1\<close> and is not NaN, the returned match is one of the targets, and the score is the
  similarity between the embedding of the source entry and the embedding of the returned
  match. So no score that is NaN, or \<open>-1\<close>, or below \<open>-1\<close> is ever in a \<open>MatchResult\<close>.
\<close>

theorem findBestMatch_score_invariant:
  assumes "findBestMatch cs a datasetB = Inr r"
  shows "js_gt (score r) (Fin (- 1)) \<and> score r \<noteq> NaN \<and> score r \<noteq> Fin (- 1) \<and>
         \<not> js_gt (Fin (- 1)) (score r) \<and>
         MatchResult.match r \<in> set datasetB \<and>
         cs (embedding a) (embedding (MatchResult.match r)) = score r"
proof -
  from findBestMatch_Inr [OF assms] obtain pre post where
    "datasetB = pre @ MatchResult.match r # post"
    "score r = cs (embedding a) (embedding (MatchResult.match r))"
    "js_gt (score r) (Fin (- 1))"
    by blast
  moreover from this(3) have "score r \<noteq> NaN" "score r \<noteq> Fin (- 1)" "\<not> js_gt (Fin (- 1)) (score r)"
    using js_gt_not_NaN js_gt_irrefl js_gt_asym by auto
  ultimately show ?thesis by simp
qed

theorem findBestMatch_score_invariant_witness:
  "findBestMatch cosineSimilarity sourceEntry [oppositeEntry, alignedEntry] =
     Inr \<lparr>MatchResult.match = alignedEntry, score = Fin 1\<rparr> \<and>
   js_gt (Fin 1) (Fin (- 1)) \<and> Fin 1 \<noteq> NaN \<and>
   alignedEntry \<in> set [oppositeEntry, alignedEntry] \<and>
   cosineSimilarity (embedding sourceEntry) (embedding alignedEntry) = Fin 1"
proof -
  have run: "findBestMatch cosineSimilarity sourceEntry [oppositeEntry, alignedEntry] =
     Inr \<lparr>MatchResult.match = alignedEntry, score = Fin 1\<rparr>"
    by (simp add: findBestMatch_def cosineSimilarity_def dot_def sourceEntry_def
        oppositeEntry_def alignedEntry_def)
  from findBestMatch_score_invariant [OF run] run show ?thesis
    by simp
qed

text \<open>
  Claim C1. For a target sequence of size 1, \<open>findBestMatch\<close> returns that single target
  whatever its similarity is. The code does so only when the similarity is greater than
  \<open>-1\<close> (lemma \<open>findBestMatch_singleton\<close>): \<open>bestScore\<close> starts at \<open>-1\<close>, the least cosine
  similarity there is, and not below it. The source entry with embedding \<open>[1]\<close> and the
  single target with embedding \<open>[-1]\<close> have similarity \<open>-1\<close>, and the call throws
  \<open>No match found\<close> although there is a target.
\<close>

theorem findBestMatch_single_opposite_target:
  "cosineSimilarity (embedding sourceEntry) (embedding oppositeEntry) = Fin (- 1) \<and>
   findBestMatch cosineSimilarity sourceEntry [oppositeEntry] = Inl NoMatchFound"
  by (simp add: findBestMatch_def cosineSimilarity_def dot_def sourceEntry_def oppositeEntry_def)

text \<open>
  Claim C7. When several targets reach the greatest similarity, \<open>findBestMatch\<close> returns
  the first of them in the order of the target sequence. Whenever the call returns, that
  is what it returns (lemma \<open>findBestMatch_Inr\<close>). It does not return when the greatest
  similarity is \<open>-1\<close>: two targets with embeddings \<open>[-1]\<close> and \<open>[-2]\<close> both have
  similarity \<open>-1\<close> to the source entry with embedding \<open>[1]\<close>, and the call throws
  \<open>No match found\<close> where the first of the two is due.
\<close>

theorem findBestMatch_tied_opposite_targets:
  "cosineSimilarity (embedding sourceEntry) (embedding oppositeEntry) = Fin (- 1) \<and>
   cosineSimilarity (embedding sourceEntry) (embedding oppositeEntry2) = Fin (- 1) \<and>
   findBestMatch cosineSimilarity sourceEntry [oppositeEntry, oppositeEntry2] = Inl NoMatchFound"
  by (simp add: findBestMatch_def cosineSimilarity_def dot_def sourceEntry_def oppositeEntry_def
      oppositeEntry2_def real_sqrt_mult)

section \<open>Joining the promises of a batch\<close>

lemma promise_all_map_Inr: "promise_all (map Inr vs) = Inr vs"
  by (induction vs) simp_all

lemma promise_all_Inr_D: "promise_all ps = Inr vs \<Longrightarrow> ps = map Inr vs"
proof (induction ps arbitrary: vs)
  case Nil
  then show ?case by simp
next
  case (Cons p ps)
  then show ?case by (cases p) (auto split: sum.splits)
qed

lemma promise_all_Inr_iff: "promise_all ps = Inr vs \<longleftrightarrow> ps = map Inr vs"
  using promise_all_map_Inr promise_all_Inr_D by metis

lemma promise_all_append_Inr:
  "promise_all (ps @ qs) = Inr vs \<longleftrightarrow>
     (\<exists>vs1 vs2. promise_all ps = Inr vs1 \<and> promise_all qs = Inr vs2 \<and> vs = vs1 @ vs2)"
  by (auto simp: promise_all_Inr_iff append_eq_map_conv)

lemma promise_all_cases: "(\<exists>vs. promise_all ps = Inr vs) \<or> (\<exists>e. promise_all ps = Inl e)"
  by (cases "promise_all ps") auto

lemma promise_all_Inl_mem: "promise_all ps = Inl e \<Longrightarrow> Inl e \<in> set ps"
proof (induction ps)
  case Nil
  then show ?case by simp
next
  case (Cons p ps)
  then show ?case by (cases p) (auto split: sum.splits)
qed

lemma promise_all_append_Inl:
  "promise_all (ps @ qs) = Inl e \<longleftrightarrow>
     promise_all ps = Inl e \<or> (\<exists>vs. promise_all ps = Inr vs \<and> promise_all qs = Inl e)"
proof (induction ps)
  case Nil
  then show ?case by simp
next
  case (Cons p ps)
  then show ?case by (cases p) (auto split: sum.splits)
qed

section \<open>The embedding stage, batch by batch\<close>

text \<open>
  A request only appends to the list of embedding requests, and the answer depends on the
  world only through the number of requests sent before.
\<close>

lemma generateEmbedding_world:
  "snd (generateEmbedding api text w) = w\<lparr>embeddingRequests := embeddingRequests w @ [text]\<rparr>"
  by (simp add: generateEmbedding_def Let_def split: option.splits list.splits)

lemma generateEmbedding_cong:
  "length (embeddingRequests w) = length (embeddingRequests w') \<Longrightarrow>
   fst (generateEmbedding api text w) = fst (generateEmbedding api text w')"
  by (simp add: generateEmbedding_def Let_def split: option.splits list.splits)

lemma embedEntry_world:
  "snd (embedEntry api entry w) =
     w\<lparr>embeddingRequests := embeddingRequests w @ [createTextRepresentation entry]\<rparr>"
  by (simp add: embedEntry_def Let_def split_beta generateEmbedding_world)

lemma embedEntry_cong:
  "length (embeddingRequests w) = length (embeddingRequests w') \<Longrightarrow>
   fst (embedEntry api entry w) = fst (embedEntry api entry w')"
  by (simp add: embedEntry_def Let_def split_beta generateEmbedding_cong [of w w'])

lemma embedBatch_world:
  "snd (embedBatch api es w) =
     w\<lparr>embeddingRequests := embeddingRequests w @ map createTextRepresentation es\<rparr>"
  by (induction es arbitrary: w) (simp_all add: split_beta embedEntry_world)

lemma embedBatch_cong:
  "length (embeddingRequests w) = length (embeddingRequests w') \<Longrightarrow>
   fst (embedBatch api es w) = fst (embedBatch api es w')"
proof (induction es arbitrary: w w')
  case Nil
  then show ?case by simp
next
  case (Cons e es)
  have "fst (embedBatch api es (snd (embedEntry api e w))) =
        fst (embedBatch api es (snd (embedEntry api e w')))"
    by (rule Cons.IH) (simp add: embedEntry_world Cons.prems)
  with embedEntry_cong [OF Cons.prems, of api e] show ?case
    by (simp add: split_beta)
qed

lemma embedBatch_length: "length (fst (embedBatch api es w)) = length es"
  by (induction es arbitrary: w) (simp_all add: split_beta)

lemma embedBatch_append:
  "fst (embedBatch api (xs @ ys) w) =
     fst (embedBatch api xs w) @ fst (embedBatch api ys (snd (embedBatch api xs w)))"
  by (induction xs arbitrary: w) (simp_all add: split_beta)

lemma embedBatch_nth:
  "i < length es \<Longrightarrow>
   fst (embedBatch api es w) ! i =
     fst (embedEntry api (es ! i)
       (w\<lparr>embeddingRequests := embeddingRequests w @ map createTextRepresentation (take i es)\<rparr>))"
proof (induction es arbitrary: i w)
  case Nil
  then show ?case by simp
next
  case (Cons e es)
  show ?case
  proof (cases i)
    case 0
    then show ?thesis by (simp add: split_beta)
  next
    case (Suc j)
    with Cons.prems have j: "j < length es" by simp
    have "fst (embedBatch api (e # es) w) ! i = fst (embedBatch api es (snd (embedEntry api e w))) ! j"
      using Suc by (simp add: split_beta)
    also have "\<dots> = fst (embedEntry api (es ! j)
       ((snd (embedEntry api e w))\<lparr>embeddingRequests := embeddingRequests (snd (embedEntry api e w)) @ map createTextRepresentation (take j es)\<rparr>))"
      by (rule Cons.IH [OF j])
    also have "\<dots> = fst (embedEntry api ((e # es) ! i)
       (w\<lparr>embeddingRequests := embeddingRequests w @ map createTextRepresentation (take i (e # es))\<rparr>))"
      using Suc by (simp add: embedEntry_world)
    finally show ?thesis .
  qed
qed

text \<open>The pauses still to come from index \<open>i\<close> on, one loop round at a time.\<close>

lemma pauses_step:
  assumes "0 < B" and "i < N"
  shows "(if i + B < N then Suc ((N - (i + B) - 1) div B) else (N - (i + B) - 1) div B) =
         (N - i - 1) div B"
proof (cases "i + B < N")
  case True
  define m where "m = N - (i + B) - 1"
  from True have "N - i - 1 = m + B"
    unfolding m_def by arith
  moreover have "(m + B) div B = Suc (m div B)"
    using assms(1) by simp
  ultimately show ?thesis
    using True unfolding m_def by presburger
next
  case False
  with assms(2) have "N - i - 1 < B" and "N - (i + B) - 1 = 0"
    by arith+
  with False show ?thesis
    by simp
qed

lemma drop_batch: "drop i xs = slice xs i (i + B) @ drop (i + B) xs"
proof -
  have "take B (drop i xs) @ drop B (drop i xs) = drop i xs"
    by (rule append_take_drop_id)
  moreover have "drop B (drop i xs) = drop (i + B) xs"
    by (simp add: add.commute)
  ultimately show ?thesis
    by (simp only: slice_def add_diff_cancel_left')
qed


text \<open>
  The loop from index \<open>i\<close> on, for a batch size that is not zero: it returns, and what it
  returns is what one pass over the remaining entries gives. When every request is
  answered, the embedded entries are appended in order and the pauses are counted; when
  one is not, the loop stops with that error and the report file is untouched.
\<close>

lemma generateEmbeddings_loop_success:
  assumes B: "0 < B"
  shows "promise_all (fst (embedBatch api (drop i entries) w)) = Inr vs \<Longrightarrow>
    generateEmbeddings_loop B api entries i acc w =
      Some (Inr (acc @ vs),
            w\<lparr>embeddingRequests :=
                 embeddingRequests w @ map createTextRepresentation (drop i entries),
               pauses := pauses w + (length entries - i - 1) div B\<rparr>)"
proof (induction "length entries - i" arbitrary: i acc w vs rule: less_induct)
  case less
  show ?case
  proof (cases "i < length entries")
    case False
    with less.prems have "vs = []" by simp
    with False show ?thesis
      by (subst generateEmbeddings_loop.simps) simp
  next
    case True
    let ?batch = "slice entries i (i + B)"
    let ?rest = "drop (i + B) entries"
    let ?w1 = "snd (embedBatch api ?batch w)"
    let ?w2 = "if i + B < length entries then ?w1\<lparr>pauses := Suc (pauses ?w1)\<rparr> else ?w1"
    have split: "drop i entries = ?batch @ ?rest" by (rule drop_batch)
    have w1: "?w1 = w\<lparr>embeddingRequests :=
                 embeddingRequests w @ map createTextRepresentation ?batch\<rparr>"
      by (rule embedBatch_world)
    have same: "fst (embedBatch api ?rest ?w2) = fst (embedBatch api ?rest ?w1)"
      by (rule embedBatch_cong) simp
    from less.prems obtain vs1 vs2 where
      vs1: "promise_all (fst (embedBatch api ?batch w)) = Inr vs1" and
      vs2: "promise_all (fst (embedBatch api ?rest ?w1)) = Inr vs2" and
      vs: "vs = vs1 @ vs2"
      unfolding split embedBatch_append promise_all_append_Inr by blast
    have "generateEmbeddings_loop B api entries i acc w =
          generateEmbeddings_loop B api entries (i + B) (acc @ vs1) ?w2"
      using True vs1 by (subst generateEmbeddings_loop.simps) (simp add: split_beta Let_def)
    also have "\<dots> = Some (Inr ((acc @ vs1) @ vs2),
            ?w2\<lparr>embeddingRequests :=
                   embeddingRequests ?w2 @ map createTextRepresentation ?rest,
                 pauses := pauses ?w2 + (length entries - (i + B) - 1) div B\<rparr>)"
    proof (rule less.hyps)
      show "length entries - (i + B) < length entries - i"
        using True B by arith
      show "promise_all (fst (embedBatch api ?rest ?w2)) = Inr vs2"
        using vs2 same by simp
    qed
    also have "?w2\<lparr>embeddingRequests :=
                   embeddingRequests ?w2 @ map createTextRepresentation ?rest,
                 pauses := pauses ?w2 + (length entries - (i + B) - 1) div B\<rparr> =
               w\<lparr>embeddingRequests :=
                 embeddingRequests w @ map createTextRepresentation (drop i entries),
               pauses := pauses w + (length entries - i - 1) div B\<rparr>"
      using pauses_step [OF B True] by (simp add: w1 split split: if_splits)
    finally show ?thesis
      by (simp add: vs)
  qed
qed

lemma generateEmbeddings_loop_failure:
  assumes B: "0 < B"
  shows "promise_all (fst (embedBatch api (drop i entries) w)) = Inl e \<Longrightarrow>
    \<exists>w'. generateEmbeddings_loop B api entries i acc w = Some (Inl e, w') \<and>
         reportFile w' = reportFile w \<and> completionRequests w' = completionRequests w"
proof (induction "length entries - i" arbitrary: i acc w rule: less_induct)
  case less
  show ?case
  proof (cases "i < length entries")
    case False
    with less.prems show ?thesis by simp
  next
    case True
    let ?batch = "slice entries i (i + B)"
    let ?rest = "drop (i + B) entries"
    let ?w1 = "snd (embedBatch api ?batch w)"
    let ?w2 = "if i + B < length entries then ?w1\<lparr>pauses := Suc (pauses ?w1)\<rparr> else ?w1"
    have split: "drop i entries = ?batch @ ?rest" by (rule drop_batch)
    have w1: "?w1 = w\<lparr>embeddingRequests :=
                 embeddingRequests w @ map createTextRepresentation ?batch\<rparr>"
      by (rule embedBatch_world)
    have same: "fst (embedBatch api ?rest ?w2) = fst (embedBatch api ?rest ?w1)"
      by (rule embedBatch_cong) simp
    from less.prems consider
      (here) "promise_all (fst (embedBatch api ?batch w)) = Inl e" |
      (later) vs1 where "promise_all (fst (embedBatch api ?batch w)) = Inr vs1"
        "promise_all (fst (embedBatch api ?rest ?w1)) = Inl e"
      unfolding split embedBatch_append promise_all_append_Inl by blast
    then show ?thesis
    proof cases
      case here
      have "generateEmbeddings_loop B api entries i acc w = Some (Inl e, ?w1)"
        using True here by (subst generateEmbeddings_loop.simps) (simp add: split_beta Let_def)
      then show ?thesis by (simp add: w1)
    next
      case later
      have step: "generateEmbeddings_loop B api entries i acc w =
          generateEmbeddings_loop B api entries (i + B) (acc @ vs1) ?w2"
        using True later(1) by (subst generateEmbeddings_loop.simps) (simp add: split_beta Let_def)
      have "\<exists>w'. generateEmbeddings_loop B api entries (i + B) (acc @ vs1) ?w2 = Some (Inl e, w') \<and>
         reportFile w' = reportFile ?w2 \<and> completionRequests w' = completionRequests ?w2"
      proof (rule less.hyps)
        show "length entries - (i + B) < length entries - i"
          using True B by arith
        show "promise_all (fst (embedBatch api ?rest ?w2)) = Inl e"
          using later(2) same by simp
      qed
      then obtain w' where w': "generateEmbeddings_loop B api entries (i + B) (acc @ vs1) ?w2 = Some (Inl e, w')"
        "reportFile w' = reportFile ?w2" "completionRequests w' = completionRequests ?w2"
        by blast
      have "reportFile ?w2 = reportFile w" "completionRequests ?w2 = completionRequests w"
        by (simp_all add: w1)
      with w' step show ?thesis
        by simp
    qed
  qed
qed

section \<open>The diff summarization stage, batch by batch\<close>

text \<open>
  A request only appends to the list of completion requests, a comparison with score 1
  sends none, and the answer depends on the world only through the number of requests
  sent before.
\<close>

lemma generateDiffSummary_world:
  "snd (generateDiffSummary api a b w) =
     w\<lparr>completionRequests := completionRequests w @ [diffPrompt a b]\<rparr>"
  by (simp add: generateDiffSummary_def Let_def split: option.splits list.splits)

lemma generateDiffSummary_cong:
  "length (completionRequests w) = length (completionRequests w') \<Longrightarrow>
   fst (generateDiffSummary api a b w) = fst (generateDiffSummary api a b w')"
  by (simp add: generateDiffSummary_def Let_def split: option.splits list.splits)

lemma summarizeComparison_world:
  "snd (summarizeComparison api c w) =
     w\<lparr>completionRequests := completionRequests w @ promptsFor [c]\<rparr>"
  by (simp add: summarizeComparison_def generateDiffSummary_world split_beta)

lemma summarizeComparison_cong:
  "length (completionRequests w) = length (completionRequests w') \<Longrightarrow>
   fst (summarizeComparison api c w) = fst (summarizeComparison api c w')"
  by (simp add: summarizeComparison_def split_beta generateDiffSummary_cong [of w w'])

lemma summarizeBatch_world:
  "snd (summarizeBatch api cs w) =
     w\<lparr>completionRequests := completionRequests w @ promptsFor cs\<rparr>"
  by (induction cs arbitrary: w) (simp_all add: split_beta summarizeComparison_world)

lemma summarizeBatch_cong:
  "length (completionRequests w) = length (completionRequests w') \<Longrightarrow>
   fst (summarizeBatch api cs w) = fst (summarizeBatch api cs w')"
proof (induction cs arbitrary: w w')
  case Nil
  then show ?case by simp
next
  case (Cons c cs)
  have "fst (summarizeBatch api cs (snd (summarizeComparison api c w))) =
        fst (summarizeBatch api cs (snd (summarizeComparison api c w')))"
    by (rule Cons.IH) (simp add: summarizeComparison_world Cons.prems)
  with summarizeComparison_cong [OF Cons.prems, of api c] show ?case
    by (simp add: split_beta)
qed

lemma summarizeBatch_length: "length (fst (summarizeBatch api cs w)) = length cs"
  by (induction cs arbitrary: w) (simp_all add: split_beta)

lemma summarizeBatch_append:
  "fst (summarizeBatch api (xs @ ys) w) =
     fst (summarizeBatch api xs w) @ fst (summarizeBatch api ys (snd (summarizeBatch api xs w)))"
  by (induction xs arbitrary: w) (simp_all add: split_beta)

lemma summarizeBatch_nth:
  "i < length cs \<Longrightarrow>
   fst (summarizeBatch api cs w) ! i =
     fst (summarizeComparison api (cs ! i)
       (w\<lparr>completionRequests := completionRequests w @ promptsFor (take i cs)\<rparr>))"
proof (induction cs arbitrary: i w)
  case Nil
  then show ?case by simp
next
  case (Cons c cs)
  show ?case
  proof (cases i)
    case 0
    then show ?thesis by (simp add: split_beta)
  next
    case (Suc j)
    with Cons.prems have j: "j < length cs" by simp
    let ?w1 = "snd (summarizeComparison api c w)"
    have "fst (summarizeBatch api (c # cs) w) ! i = fst (summarizeBatch api cs ?w1) ! j"
      using Suc by (simp add: split_beta)
    also have "\<dots> = fst (summarizeComparison api (cs ! j)
       (?w1\<lparr>completionRequests := completionRequests ?w1 @ promptsFor (take j cs)\<rparr>))"
      by (rule Cons.IH [OF j])
    also have "\<dots> = fst (summarizeComparison api ((c # cs) ! i)
       (w\<lparr>completionRequests := completionRequests w @ promptsFor (take i (c # cs))\<rparr>))"
      using Suc by (simp add: summarizeComparison_world)
    finally show ?thesis .
  qed
qed

text \<open>
  The loop from index \<open>i\<close> on, for a batch size that is not zero: it returns what one pass
  over the remaining comparisons gives, and counts the pauses.
\<close>

lemma generateDiffSummaries_loop_closed:
  assumes B: "0 < B"
  shows "generateDiffSummaries_loop B api comparisons i acc w =
      Some (acc @ fst (summarizeBatch api (drop i comparisons) w),
            w\<lparr>completionRequests := completionRequests w @ promptsFor (drop i comparisons),
               pauses := pauses w + (length comparisons - i - 1) div B\<rparr>)"
proof (induction "length comparisons - i" arbitrary: i acc w rule: less_induct)
  case less
  show ?case
  proof (cases "i < length comparisons")
    case False
    then show ?thesis
      by (subst generateDiffSummaries_loop.simps) simp
  next
    case True
    let ?batch = "slice comparisons i (i + B)"
    let ?rest = "drop (i + B) comparisons"
    let ?w1 = "snd (summarizeBatch api ?batch w)"
    let ?w2 = "if i + B < length comparisons then ?w1\<lparr>pauses := Suc (pauses ?w1)\<rparr> else ?w1"
    have split: "drop i comparisons = ?batch @ ?rest" by (rule drop_batch)
    have w1: "?w1 = w\<lparr>completionRequests := completionRequests w @ promptsFor ?batch\<rparr>"
      by (rule summarizeBatch_world)
    have same: "fst (summarizeBatch api ?rest ?w2) = fst (summarizeBatch api ?rest ?w1)"
      by (rule summarizeBatch_cong) simp
    have "generateDiffSummaries_loop B api comparisons i acc w =
          generateDiffSummaries_loop B api comparisons (i + B)
            (acc @ fst (summarizeBatch api ?batch w)) ?w2"
      using True by (subst generateDiffSummaries_loop.simps) (simp add: split_beta Let_def)
    also have "\<dots> = Some ((acc @ fst (summarizeBatch api ?batch w)) @
                          fst (summarizeBatch api ?rest ?w2),
            ?w2\<lparr>completionRequests := completionRequests ?w2 @ promptsFor ?rest,
                 pauses := pauses ?w2 + (length comparisons - (i + B) - 1) div B\<rparr>)"
      by (rule less.hyps) (use True B in arith)
    also have "?w2\<lparr>completionRequests := completionRequests ?w2 @ promptsFor ?rest,
                 pauses := pauses ?w2 + (length comparisons - (i + B) - 1) div B\<rparr> =
               w\<lparr>completionRequests := completionRequests w @ promptsFor (drop i comparisons),
               pauses := pauses w + (length comparisons - i - 1) div B\<rparr>"
      using pauses_step [OF B True] by (simp add: w1 split split: if_splits)
    finally show ?thesis
      by (simp add: same split summarizeBatch_append)
  qed
qed

section \<open>Counting the pauses\<close>

text \<open>
  The loops count \<open>(N - 1) div B\<close> pauses for \<open>N\<close> items (in natural numbers, so none for
  \<open>N = 0\<close>); that is \<open>ceil(N / B) - 1\<close> except at \<open>N = 0\<close>, where the latter is \<open>-1\<close>.
\<close>

lemma neg_div_Suc:
  assumes "0 < B"
  shows "- (- int (Suc n) div int B) - 1 = int n div int B"
proof -
  let ?q = "int n div int B" and ?r = "int n mod int B"
  have r: "0 \<le> ?r" "?r < int B"
    using assms by simp_all
  have "int n = ?q * int B + ?r" by simp
  then have "- int (Suc n) = (int B - 1 - ?r) + (- ?q - 1) * int B"
    by (simp add: algebra_simps)
  then have "- int (Suc n) div int B = ((int B - 1 - ?r) + (- ?q - 1) * int B) div int B"
    by (simp only:)
  also have "\<dots> = (- ?q - 1) + (int B - 1 - ?r) div int B"
    using assms by (simp only: div_mult_self1 [of "int B" "int B - 1 - ?r" "- ?q - 1"])
  also have "(int B - 1 - ?r) div int B = 0"
    using r by (simp add: div_pos_pos_trivial)
  finally show ?thesis by simp
qed

lemma ceiling_pauses:
  assumes "0 < B"
  shows "max 0 (\<lceil>real N / real B\<rceil> - 1) = int ((N - 1) div B)"
proof (cases N)
  case 0
  then show ?thesis by simp
next
  case (Suc n)
  have "\<lceil>real N / real B\<rceil> = \<lceil>(of_int (int N) :: real) / of_int (int B)\<rceil>" by simp
  also have "\<dots> = - (- int N div int B)" by (rule ceiling_divide_eq_div)
  finally have c: "\<lceil>real N / real B\<rceil> - 1 = int n div int B"
    using neg_div_Suc [OF assms, of n] Suc by simp
  have "int ((N - 1) div B) = int n div int B"
    using Suc by (simp add: zdiv_int)
  moreover have "0 \<le> int n div int B"
    by (simp add: pos_imp_zdiv_nonneg_iff assms)
  ultimately show ?thesis using c by simp
qed

section \<open>The two stages as a whole\<close>

lemma BATCH_SIZE_pos: "0 < BATCH_SIZE"
  by (simp add: BATCH_SIZE_def)

lemma generateDiffSummariesWithBatching_closed:
  "0 < B \<Longrightarrow>
   generateDiffSummariesWithBatching B api cs w =
     Some (fst (summarizeBatch api cs w),
           w\<lparr>completionRequests := completionRequests w @ promptsFor cs,
             pauses := pauses w + (length cs - 1) div B\<rparr>)"
  using generateDiffSummaries_loop_closed [of B api cs 0 "[]" w]
  by (simp add: generateDiffSummariesWithBatching_def)

lemma generateEmbedding_error:
  "fst (generateEmbedding api text w) = Inl e \<Longrightarrow> e = EmbeddingRequestFailed"
  by (auto simp: generateEmbedding_def Let_def split: option.splits list.splits)

lemma embedEntry_Inl_iff:
  "fst (embedEntry api entry w) = Inl e \<longleftrightarrow>
   fst (generateEmbedding api (createTextRepresentation entry) w) = Inl e"
  by (auto simp: embedEntry_def Let_def split_beta split: sum.splits)

lemma embedEntry_Inr_strip:
  "fst (embedEntry api entry w) = Inr x \<Longrightarrow> strip x = entry"
  by (auto simp: embedEntry_def Let_def split_beta strip_def split: sum.splits)

lemma embedBatch_errors:
  "Inl e \<in> set (fst (embedBatch api es w)) \<Longrightarrow> e = EmbeddingRequestFailed"
proof (induction es arbitrary: w)
  case Nil
  then show ?case by simp
next
  case (Cons x es)
  from Cons.prems consider
    "fst (embedEntry api x w) = Inl e" |
    "Inl e \<in> set (fst (embedBatch api es (snd (embedEntry api x w))))"
    by (auto simp: split_beta)
  then show ?case
  proof cases
    case 1
    then show ?thesis
      using embedEntry_Inl_iff generateEmbedding_error by blast
  next
    case 2
    then show ?thesis by (rule Cons.IH)
  qed
qed

text \<open>The two ways the embedding stage ends.\<close>

lemma generateEmbeddingsWithBatching_cases:
  assumes "0 < B"
  shows "(\<exists>es. generateEmbeddingsWithBatching B api entries w =
            Some (Inr es,
                  w\<lparr>embeddingRequests :=
                       embeddingRequests w @ map createTextRepresentation entries,
                     pauses := pauses w + (length entries - 1) div B\<rparr>) \<and>
            fst (embedBatch api entries w) = map Inr es) \<or>
         (\<exists>w'. generateEmbeddingsWithBatching B api entries w =
            Some (Inl EmbeddingRequestFailed, w') \<and>
            reportFile w' = reportFile w \<and> completionRequests w' = completionRequests w \<and>
            \<not> (\<exists>es. fst (embedBatch api entries w) = map Inr es))"
proof (cases "promise_all (fst (embedBatch api entries w))")
  case (Inr vs)
  from generateEmbeddings_loop_success [OF assms, of api 0 entries w vs "[]"] Inr
  have "generateEmbeddingsWithBatching B api entries w =
            Some (Inr vs,
                  w\<lparr>embeddingRequests :=
                       embeddingRequests w @ map createTextRepresentation entries,
                     pauses := pauses w + (length entries - 1) div B\<rparr>)"
    by (simp add: generateEmbeddingsWithBatching_def)
  moreover from Inr have "fst (embedBatch api entries w) = map Inr vs"
    by (simp add: promise_all_Inr_iff)
  ultimately show ?thesis by blast
next
  case (Inl e)
  then have "Inl e \<in> set (fst (embedBatch api entries w))"
    by (rule promise_all_Inl_mem)
  then have "e = EmbeddingRequestFailed"
    by (rule embedBatch_errors)
  with Inl generateEmbeddings_loop_failure [OF assms, of api 0 entries w e "[]"]
  obtain w' where "generateEmbeddingsWithBatching B api entries w =
            Some (Inl EmbeddingRequestFailed, w')"
     "reportFile w' = reportFile w" "completionRequests w' = completionRequests w"
    by (auto simp: generateEmbeddingsWithBatching_def)
  moreover from Inl have "\<not> (\<exists>es. fst (embedBatch api entries w) = map Inr es)"
    by (auto simp flip: promise_all_Inr_iff)
  ultimately show ?thesis by blast
qed

lemma generateEmbeddingsWithBatching_returns:
  assumes "0 < B"
  shows "\<exists>r w'. generateEmbeddingsWithBatching B api entries w = Some (r, w')"
  using generateEmbeddingsWithBatching_cases [OF assms, of api entries w] by blast

lemma generateEmbeddingsWithBatching_Inr:
  assumes "0 < B" and "generateEmbeddingsWithBatching B api entries w = Some (Inr es, w')"
  shows "fst (embedBatch api entries w) = map Inr es"
    and "w' = w\<lparr>embeddingRequests :=
                       embeddingRequests w @ map createTextRepresentation entries,
                     pauses := pauses w + (length entries - 1) div B\<rparr>"
  using generateEmbeddingsWithBatching_cases [OF assms(1), of api entries w] assms(2)
  by auto

lemma generateEmbeddingsWithBatching_Inr_nth:
  assumes "0 < B" and "generateEmbeddingsWithBatching B api entries w = Some (Inr es, w')"
  shows "length es = length entries"
    and "i < length entries \<Longrightarrow>
         fst (embedEntry api (entries ! i)
           (w\<lparr>embeddingRequests :=
                embeddingRequests w @ map createTextRepresentation (take i entries)\<rparr>)) =
         Inr (es ! i)"
    and "map strip es = entries"
proof -
  note eq = generateEmbeddingsWithBatching_Inr(1) [OF assms]
  from arg_cong [OF eq, of length] show len: "length es = length entries"
    by (simp add: embedBatch_length)
  show nth: "fst (embedEntry api (entries ! i)
           (w\<lparr>embeddingRequests :=
                embeddingRequests w @ map createTextRepresentation (take i entries)\<rparr>)) =
         Inr (es ! i)" if "i < length entries" for i
    using embedBatch_nth [OF that, of api w] that len by (simp add: eq)
  show "map strip es = entries"
  proof (rule nth_equalityI)
    show "length (map strip es) = length entries" using len by simp
    fix j assume "j < length (map strip es)"
    then have j: "j < length entries" using len by simp
    from embedEntry_Inr_strip [OF nth [OF j]] j len show "map strip es ! j = entries ! j"
      by simp
  qed
qed

lemma summarizeComparison_fields:
  "entryA (fst (summarizeComparison api c w)) = entryA c \<and>
   match (fst (summarizeComparison api c w)) = match c \<and>
   similarityScore (fst (summarizeComparison api c w)) = similarityScore c"
  by (simp add: summarizeComparison_def split_beta)

text \<open>The requests of a pass are all answered exactly when \<open>generateEmbedding\<close> fails for
  no entry.\<close>

lemma embedBatch_all_Inr_iff:
  "(\<exists>es. fst (embedBatch api entries w) = map Inr es) \<longleftrightarrow>
   (\<forall>i<length entries. \<exists>e.
      fst (generateEmbedding api (createTextRepresentation (entries ! i))
        (w\<lparr>embeddingRequests :=
             embeddingRequests w @ map createTextRepresentation (take i entries)\<rparr>)) = Inr e)"
  (is "?L \<longleftrightarrow> ?R")
proof
  assume ?L
  then obtain es where es: "fst (embedBatch api entries w) = map Inr es" ..
  from arg_cong [OF es, of length] have len: "length es = length entries"
    by (simp add: embedBatch_length)
  show ?R
  proof (intro allI impI)
    fix i assume i: "i < length entries"
    let ?wi = "w\<lparr>embeddingRequests :=
             embeddingRequests w @ map createTextRepresentation (take i entries)\<rparr>"
    from i len es have "fst (embedEntry api (entries ! i) ?wi) = Inr (es ! i)"
      using embedBatch_nth [OF i, of api w] by simp
    then have "\<not> (\<exists>e. fst (generateEmbedding api (createTextRepresentation (entries ! i)) ?wi) = Inl e)"
      by (simp flip: embedEntry_Inl_iff)
    then show "\<exists>e. fst (generateEmbedding api (createTextRepresentation (entries ! i)) ?wi) = Inr e"
      by (cases "fst (generateEmbedding api (createTextRepresentation (entries ! i)) ?wi)") auto
  qed
next
  assume R: ?R
  let ?ps = "fst (embedBatch api entries w)"
  have "?ps = map Inr (map projr ?ps)"
  proof (rule nth_equalityI)
    show "length ?ps = length (map Inr (map projr ?ps))" by simp
    fix i assume "i < length ?ps"
    then have i: "i < length entries" by (simp add: embedBatch_length)
    let ?wi = "w\<lparr>embeddingRequests :=
             embeddingRequests w @ map createTextRepresentation (take i entries)\<rparr>"
    from R i obtain e where
      "fst (generateEmbedding api (createTextRepresentation (entries ! i)) ?wi) = Inr e"
      by blast
    then have "\<not> (\<exists>x. fst (embedEntry api (entries ! i) ?wi) = Inl x)"
      by (simp add: embedEntry_Inl_iff)
    then obtain x where "fst (embedEntry api (entries ! i) ?wi) = Inr x"
      by (cases "fst (embedEntry api (entries ! i) ?wi)") auto
    then have "?ps ! i = Inr x"
      by (simp add: embedBatch_nth [OF i])
    with i show "?ps ! i = map Inr (map projr ?ps) ! i"
      by (simp add: embedBatch_length)
  qed
  then show ?L ..
qed

section \<open>Claims about the batched stages\<close>

text \<open>
  Claim C2, as amended. For a batch size \<open>B\<close> of at least 1 and \<open>N\<close> input items: the diff
  summarization stage always returns a result, and the embedding stage always ends, with a
  result exactly when \<open>generateEmbedding\<close> fails for no entry (no request throws and no
  response has an empty \<open>data\<close>). A returned result has length \<open>N\<close>, and its \<open>i\<close>-th element
  is what the mapped function gives for the \<open>i\<close>-th input, sent after the requests of the
  inputs before it: it carries the fields of that input. A stage that returns a result has
  taken \<open>max(0, ceil(N / B) - 1)\<close> pauses: \<open>ceil(N / B) - 1\<close> for \<open>N \<ge> 1\<close>, none for
  \<open>N = 0\<close>.
\<close>

theorem batched_stages_order_and_pauses:
  assumes "0 < B"
  shows "(\<exists>rs w'. generateDiffSummariesWithBatching B capi comparisons w = Some (rs, w') \<and>
            length rs = length comparisons \<and>
            (\<forall>i<length comparisons.
               rs ! i = fst (summarizeComparison capi (comparisons ! i)
                 (w\<lparr>completionRequests :=
                      completionRequests w @ promptsFor (take i comparisons)\<rparr>)) \<and>
               entryA (rs ! i) = entryA (comparisons ! i) \<and>
               match (rs ! i) = match (comparisons ! i) \<and>
               similarityScore (rs ! i) = similarityScore (comparisons ! i)) \<and>
            int (pauses w') - int (pauses w) =
              max 0 (\<lceil>real (length comparisons) / real B\<rceil> - 1)) \<and>
         (\<exists>r w'. generateEmbeddingsWithBatching B eapi entries w = Some (r, w') \<and>
            ((\<exists>es. r = Inr es) \<longleftrightarrow>
             (\<forall>i<length entries. \<exists>e.
                fst (generateEmbedding eapi (createTextRepresentation (entries ! i))
                  (w\<lparr>embeddingRequests :=
                       embeddingRequests w @
                       map createTextRepresentation (take i entries)\<rparr>)) = Inr e)) \<and>
            (\<forall>es. r = Inr es \<longrightarrow>
               length es = length entries \<and>
               (\<forall>i<length entries.
                  Inr (es ! i) = fst (embedEntry eapi (entries ! i)
                    (w\<lparr>embeddingRequests :=
                         embeddingRequests w @
                         map createTextRepresentation (take i entries)\<rparr>)) \<and>
                  strip (es ! i) = entries ! i) \<and>
               int (pauses w') - int (pauses w) =
                 max 0 (\<lceil>real (length entries) / real B\<rceil> - 1)))"
proof
  let ?rs = "fst (summarizeBatch capi comparisons w)"
  let ?w' = "w\<lparr>completionRequests := completionRequests w @ promptsFor comparisons,
               pauses := pauses w + (length comparisons - 1) div B\<rparr>"
  have run: "generateDiffSummariesWithBatching B capi comparisons w = Some (?rs, ?w')"
    by (rule generateDiffSummariesWithBatching_closed [OF assms])
  have len: "length ?rs = length comparisons"
    by (rule summarizeBatch_length)
  have nth: "\<forall>i<length comparisons.
               ?rs ! i = fst (summarizeComparison capi (comparisons ! i)
                 (w\<lparr>completionRequests :=
                      completionRequests w @ promptsFor (take i comparisons)\<rparr>)) \<and>
               entryA (?rs ! i) = entryA (comparisons ! i) \<and>
               match (?rs ! i) = match (comparisons ! i) \<and>
               similarityScore (?rs ! i) = similarityScore (comparisons ! i)"
    by (simp add: summarizeBatch_nth summarizeComparison_fields)
  have "int (pauses ?w') - int (pauses w) =
              max 0 (\<lceil>real (length comparisons) / real B\<rceil> - 1)"
    by (simp add: ceiling_pauses [OF assms])
  with run len nth
  show "\<exists>rs w'. generateDiffSummariesWithBatching B capi comparisons w = Some (rs, w') \<and>
            length rs = length comparisons \<and>
            (\<forall>i<length comparisons.
               rs ! i = fst (summarizeComparison capi (comparisons ! i)
                 (w\<lparr>completionRequests :=
                      completionRequests w @ promptsFor (take i comparisons)\<rparr>)) \<and>
               entryA (rs ! i) = entryA (comparisons ! i) \<and>
               match (rs ! i) = match (comparisons ! i) \<and>
               similarityScore (rs ! i) = similarityScore (comparisons ! i)) \<and>
            int (pauses w') - int (pauses w) =
              max 0 (\<lceil>real (length comparisons) / real B\<rceil> - 1)"
    by blast
next
  obtain r w' where run: "generateEmbeddingsWithBatching B eapi entries w = Some (r, w')"
    using generateEmbeddingsWithBatching_returns [OF assms] by blast
  have ok_iff: "(\<exists>es. r = Inr es) \<longleftrightarrow>
             (\<forall>i<length entries. \<exists>e.
                fst (generateEmbedding eapi (createTextRepresentation (entries ! i))
                  (w\<lparr>embeddingRequests :=
                       embeddingRequests w @
                       map createTextRepresentation (take i entries)\<rparr>)) = Inr e)"
    using generateEmbeddingsWithBatching_cases [OF assms, of eapi entries w] run
    unfolding embedBatch_all_Inr_iff [symmetric] by auto
  have "length es = length entries \<and>
               (\<forall>i<length entries.
                  Inr (es ! i) = fst (embedEntry eapi (entries ! i)
                    (w\<lparr>embeddingRequests :=
                         embeddingRequests w @
                         map createTextRepresentation (take i entries)\<rparr>)) \<and>
                  strip (es ! i) = entries ! i) \<and>
               int (pauses w') - int (pauses w) =
                 max 0 (\<lceil>real (length entries) / real B\<rceil> - 1)" if r: "r = Inr es" for es
  proof -
    from run r have ok: "generateEmbeddingsWithBatching B eapi entries w = Some (Inr es, w')"
      by simp
    note facts = generateEmbeddingsWithBatching_Inr_nth [OF assms ok]
    have w': "w' = w\<lparr>embeddingRequests :=
                       embeddingRequests w @ map createTextRepresentation entries,
                     pauses := pauses w + (length entries - 1) div B\<rparr>"
      by (rule generateEmbeddingsWithBatching_Inr(2) [OF assms ok])
    have "strip (es ! i) = entries ! i" if "i < length entries" for i
      using arg_cong [OF facts(3), of "\<lambda>xs. xs ! i"] that facts(1) by simp
    moreover have "int (pauses w') - int (pauses w) =
                 max 0 (\<lceil>real (length entries) / real B\<rceil> - 1)"
      by (simp add: w' ceiling_pauses [OF assms])
    ultimately show ?thesis
      using facts(1) facts(2) by simp
  qed
  with run ok_iff show "\<exists>r w'. generateEmbeddingsWithBatching B eapi entries w = Some (r, w') \<and>
            ((\<exists>es. r = Inr es) \<longleftrightarrow>
             (\<forall>i<length entries. \<exists>e.
                fst (generateEmbedding eapi (createTextRepresentation (entries ! i))
                  (w\<lparr>embeddingRequests :=
                       embeddingRequests w @
                       map createTextRepresentation (take i entries)\<rparr>)) = Inr e)) \<and>
            (\<forall>es. r = Inr es \<longrightarrow>
               length es = length entries \<and>
               (\<forall>i<length entries.
                  Inr (es ! i) = fst (embedEntry eapi (entries ! i)
                    (w\<lparr>embeddingRequests :=
                         embeddingRequests w @
                         map createTextRepresentation (take i entries)\<rparr>)) \<and>
                  strip (es ! i) = entries ! i) \<and>
               int (pauses w') - int (pauses w) =
                 max 0 (\<lceil>real (length entries) / real B\<rceil> - 1))"
    by blast
qed

theorem batched_stages_order_and_pauses_witness:
  "(0::nat) < 2 \<and>
   (\<exists>rs w'. generateDiffSummariesWithBatching 2 failingCompletions
                [pairIdentical, pairDifferent, pairDifferent] world0 = Some (rs, w') \<and>
      length rs = 3 \<and> similarityScore (rs ! 2) = Fin (1 / 2) \<and> pauses w' = 1) \<and>
   fst (generateEmbedding constantEmbeddings (createTextRepresentation profileA) world0) =
     Inr [1] \<and>
   fst (generateEmbedding constantEmbeddings (createTextRepresentation profileB)
          (world0\<lparr>embeddingRequests := [createTextRepresentation profileA]\<rparr>)) = Inr [1] \<and>
   fst (generateEmbedding constantEmbeddings (createTextRepresentation profileC)
          (world0\<lparr>embeddingRequests :=
              [createTextRepresentation profileA, createTextRepresentation profileB]\<rparr>)) =
     Inr [1] \<and>
   (\<exists>es w'. generateEmbeddingsWithBatching 2 constantEmbeddings
                [profileA, profileB, profileC] world0 = Some (Inr es, w') \<and>
      length es = 3 \<and> strip (es ! 2) = profileC \<and> pauses w' = 1)"
proof -
  let ?cs = "[pairIdentical, pairDifferent, pairDifferent]"
  let ?es = "[profileA, profileB, profileC]"
  have B: "(0::nat) < 2" by simp
  note inst = batched_stages_order_and_pauses [OF B, of failingCompletions ?cs world0
      constantEmbeddings ?es]
  from inst have "\<exists>rs w'. generateDiffSummariesWithBatching 2 failingCompletions ?cs world0 =
            Some (rs, w') \<and>
            length rs = length ?cs \<and>
            (\<forall>i<length ?cs.
               rs ! i = fst (summarizeComparison failingCompletions (?cs ! i)
                 (world0\<lparr>completionRequests :=
                      completionRequests world0 @ promptsFor (take i ?cs)\<rparr>)) \<and>
               entryA (rs ! i) = entryA (?cs ! i) \<and>
               match (rs ! i) = match (?cs ! i) \<and>
               similarityScore (rs ! i) = similarityScore (?cs ! i)) \<and>
            int (pauses w') - int (pauses world0) =
              max 0 (\<lceil>real (length ?cs) / real 2\<rceil> - 1)"
    by (rule conjunct1)
  then obtain rs w' where
    run: "generateDiffSummariesWithBatching 2 failingCompletions ?cs world0 = Some (rs, w')" and
    len: "length rs = length ?cs" and
    nth0: "\<forall>i<length ?cs.
               rs ! i = fst (summarizeComparison failingCompletions (?cs ! i)
                 (world0\<lparr>completionRequests :=
                      completionRequests world0 @ promptsFor (take i ?cs)\<rparr>)) \<and>
               entryA (rs ! i) = entryA (?cs ! i) \<and>
               match (rs ! i) = match (?cs ! i) \<and>
               similarityScore (rs ! i) = similarityScore (?cs ! i)" and
    p: "int (pauses w') - int (pauses world0) = max 0 (\<lceil>real (length ?cs) / real 2\<rceil> - 1)"
    by (elim exE conjE)
  from nth0 have nth: "\<forall>i<length ?cs. similarityScore (rs ! i) = similarityScore (?cs ! i)"
    by blast
  from len have "length rs = 3" by simp
  moreover from nth have "similarityScore (rs ! 2) = similarityScore (?cs ! 2)" by simp
  then have "similarityScore (rs ! 2) = Fin (1 / 2)" by (simp add: pairDifferent_def)
  moreover from p have "pauses w' = 1" by (simp add: world0_def)
  ultimately have D: "\<exists>rs w'. generateDiffSummariesWithBatching 2 failingCompletions ?cs world0 =
      Some (rs, w') \<and> length rs = 3 \<and> similarityScore (rs ! 2) = Fin (1 / 2) \<and> pauses w' = 1"
    using run by blast
  have answered: "\<forall>i<length ?es. \<exists>e.
      fst (generateEmbedding constantEmbeddings (createTextRepresentation (?es ! i))
             (world0\<lparr>embeddingRequests :=
                 embeddingRequests world0 @ map createTextRepresentation (take i ?es)\<rparr>)) =
        Inr e"
    by (simp add: generateEmbedding_def constantEmbeddings_def)
  from inst have "\<exists>r w'. generateEmbeddingsWithBatching 2 constantEmbeddings ?es world0 = Some (r, w') \<and>
            ((\<exists>es. r = Inr es) \<longleftrightarrow>
             (\<forall>i<length ?es. \<exists>e.
                fst (generateEmbedding constantEmbeddings (createTextRepresentation (?es ! i))
                  (world0\<lparr>embeddingRequests :=
                       embeddingRequests world0 @
                       map createTextRepresentation (take i ?es)\<rparr>)) = Inr e)) \<and>
            (\<forall>es. r = Inr es \<longrightarrow>
               length es = length ?es \<and>
               (\<forall>i<length ?es.
                  Inr (es ! i) = fst (embedEntry constantEmbeddings (?es ! i)
                    (world0\<lparr>embeddingRequests :=
                         embeddingRequests world0 @
                         map createTextRepresentation (take i ?es)\<rparr>)) \<and>
                  strip (es ! i) = ?es ! i) \<and>
               int (pauses w') - int (pauses world0) =
                 max 0 (\<lceil>real (length ?es) / real 2\<rceil> - 1))"
    by (rule conjunct2)
  then obtain r w'' where
    erun: "generateEmbeddingsWithBatching 2 constantEmbeddings ?es world0 = Some (r, w'')" and
    ok: "(\<exists>es. r = Inr es) \<longleftrightarrow> (\<forall>i<length ?es. \<exists>e.
      fst (generateEmbedding constantEmbeddings (createTextRepresentation (?es ! i))
             (world0\<lparr>embeddingRequests :=
                 embeddingRequests world0 @ map createTextRepresentation (take i ?es)\<rparr>)) =
        Inr e)" and
    imp0: "\<forall>es. r = Inr es \<longrightarrow>
               length es = length ?es \<and>
               (\<forall>i<length ?es.
                  Inr (es ! i) = fst (embedEntry constantEmbeddings (?es ! i)
                    (world0\<lparr>embeddingRequests :=
                         embeddingRequests world0 @
                         map createTextRepresentation (take i ?es)\<rparr>)) \<and>
                  strip (es ! i) = ?es ! i) \<and>
               int (pauses w'') - int (pauses world0) =
                 max 0 (\<lceil>real (length ?es) / real 2\<rceil> - 1)"
    by (elim exE conjE)
  from imp0 have imp: "\<forall>es. r = Inr es \<longrightarrow> length es = length ?es \<and>
            (\<forall>i<length ?es. strip (es ! i) = ?es ! i) \<and>
            int (pauses w'') - int (pauses world0) = max 0 (\<lceil>real (length ?es) / real 2\<rceil> - 1)"
    by blast
  from answered have "\<exists>es. r = Inr es" by (rule ok [THEN iffD2])
  then obtain es where r: "r = Inr es" ..
  with imp have "length es = length ?es" "\<forall>i<length ?es. strip (es ! i) = ?es ! i"
    "int (pauses w'') - int (pauses world0) = max 0 (\<lceil>real (length ?es) / real 2\<rceil> - 1)"
    by blast+
  then have "length es = 3" "strip (es ! 2) = profileC" "pauses w'' = 1"
    by (simp_all add: world0_def)
  with erun r have E: "\<exists>es w'. generateEmbeddingsWithBatching 2 constantEmbeddings ?es world0 =
      Some (Inr es, w') \<and> length es = 3 \<and> strip (es ! 2) = profileC \<and> pauses w' = 1"
    by blast
  have each:
    "fst (generateEmbedding constantEmbeddings (createTextRepresentation profileA) world0) =
       Inr [1]"
    "fst (generateEmbedding constantEmbeddings (createTextRepresentation profileB)
          (world0\<lparr>embeddingRequests := [createTextRepresentation profileA]\<rparr>)) = Inr [1]"
    "fst (generateEmbedding constantEmbeddings (createTextRepresentation profileC)
          (world0\<lparr>embeddingRequests :=
              [createTextRepresentation profileA, createTextRepresentation profileB]\<rparr>)) =
       Inr [1]"
    by (simp_all add: generateEmbedding_def constantEmbeddings_def)
  from B D each E show ?thesis by (intro conjI)
qed

text \<open>
  Claim C2 as it is written fails in two places. With no input a stage takes no pause,
  where \<open>ceil(0 / B) - 1\<close> is \<open>-1\<close>; and when an embedding request throws, the embedding
  stage returns no result sequence at all.
\<close>

theorem batched_stages_counterexample:
  "generateDiffSummariesWithBatching BATCH_SIZE failingCompletions [] world0 =
     Some ([], world0) \<and>
   int (pauses world0) - int (pauses world0) \<noteq>
     \<lceil>real (length ([] :: Comparison list)) / real BATCH_SIZE\<rceil> - 1 \<and>
   generateEmbeddingsWithBatching BATCH_SIZE failingEmbeddings [profileA] world0 =
     Some (Inl EmbeddingRequestFailed,
           world0\<lparr>embeddingRequests := [createTextRepresentation profileA]\<rparr>)"
  by (simp add: generateDiffSummariesWithBatching_def generateDiffSummaries_loop.simps
      generateEmbeddingsWithBatching_def generateEmbeddings_loop.simps slice_def BATCH_SIZE_def
      embedEntry_def generateEmbedding_def failingEmbeddings_def Let_def world0_def)

section \<open>Claims about the diff summaries\<close>

text \<open>
  What \<open>generateDiffSummary\<close> returns, by the answer of the service: the fixed text when
  the call throws or the response has no choice, \<open>null\<close> when the content of the first
  choice is \<open>null\<close>, and the trimmed content otherwise. An empty string as content gives
  the empty string, not \<open>null\<close>.
\<close>

lemma generateDiffSummary_result:
  "fst (generateDiffSummary api a b w) =
     (case api (length (completionRequests w)) (diffPrompt a b) of
        None \<Rightarrow> Some ''Error generating diff summary''
      | Some [] \<Rightarrow> Some ''Error generating diff summary''
      | Some (None # choices) \<Rightarrow> None
      | Some (Some s # choices) \<Rightarrow> Some (trim s))"
  by (simp add: generateDiffSummary_def Let_def split: option.splits list.splits)

lemma dropLeading_Nil: "dropLeading ps [] = []"
proof -
  have "find (startsWith []) ps = None"
    by (simp add: find_None_iff startsWith_def)
  then show ?thesis
    by (subst dropLeading.simps) simp
qed

lemma generateDiffSummary_empty_content:
  "api (length (completionRequests w)) (diffPrompt a b) = Some (Some [] # choices) \<Longrightarrow>
   fst (generateDiffSummary api a b w) = Some []"
  by (simp add: generateDiffSummary_result trim_def dropLeading_Nil)

lemma summarizeComparison_diffSummary:
  "diffSummary (fst (summarizeComparison api c w)) =
     (if js_eq (similarityScore c) (Fin 1) then Some ''No differences''
      else fst (generateDiffSummary api (entryA c) (match c) w))"
  by (simp add: summarizeComparison_def split_beta)

text \<open>
  Claim C3. For a comparison whose \<open>similarityScore\<close> is exactly 1, the stage sets
  \<open>diffSummary\<close> to \<open>No differences\<close> and sends no request for it: its function leaves the
  world as it was, and the requests of a whole run are the prompts of the comparisons whose
  score is not 1, one each, in order.
\<close>

theorem identical_pair_skips_completion:
  assumes "0 < B" and "i < length comparisons"
    and "js_eq (similarityScore (comparisons ! i)) (Fin 1)"
  shows "summarizeComparison capi (comparisons ! i) w0 =
           (\<lparr>entryA = entryA (comparisons ! i), match = match (comparisons ! i),
              similarityScore = similarityScore (comparisons ! i),
              diffSummary = Some ''No differences''\<rparr>, w0) \<and>
         (\<exists>rs w'. generateDiffSummariesWithBatching B capi comparisons w = Some (rs, w') \<and>
            diffSummary (rs ! i) = Some ''No differences'' \<and>
            completionRequests w' = completionRequests w @ promptsFor comparisons)"
proof
  show "summarizeComparison capi (comparisons ! i) w0 =
           (\<lparr>entryA = entryA (comparisons ! i), match = match (comparisons ! i),
              similarityScore = similarityScore (comparisons ! i),
              diffSummary = Some ''No differences''\<rparr>, w0)"
    using assms(3) by (simp add: summarizeComparison_def)
next
  let ?rs = "fst (summarizeBatch capi comparisons w)"
  let ?w' = "w\<lparr>completionRequests := completionRequests w @ promptsFor comparisons,
               pauses := pauses w + (length comparisons - 1) div B\<rparr>"
  have "generateDiffSummariesWithBatching B capi comparisons w = Some (?rs, ?w')"
    by (rule generateDiffSummariesWithBatching_closed [OF assms(1)])
  moreover have "diffSummary (?rs ! i) = Some ''No differences''"
    using assms(3) by (simp add: summarizeBatch_nth [OF assms(2)] summarizeComparison_diffSummary)
  moreover have "completionRequests ?w' = completionRequests w @ promptsFor comparisons"
    by simp
  ultimately show "\<exists>rs w'. generateDiffSummariesWithBatching B capi comparisons w = Some (rs, w') \<and>
            diffSummary (rs ! i) = Some ''No differences'' \<and>
            completionRequests w' = completionRequests w @ promptsFor comparisons"
    by blast
qed

theorem identical_pair_skips_completion_witness:
  "(0::nat) < BATCH_SIZE \<and> (0::nat) < length [pairIdentical, pairDifferent] \<and>
   js_eq (similarityScore ([pairIdentical, pairDifferent] ! 0)) (Fin 1) \<and>
   summarizeComparison failingCompletions pairIdentical world0 =
     (\<lparr>entryA = profileA, match = profileB, similarityScore = Fin 1,
        diffSummary = Some ''No differences''\<rparr>, world0) \<and>
   (\<exists>rs w'. generateDiffSummariesWithBatching BATCH_SIZE failingCompletions
               [pairIdentical, pairDifferent] world0 = Some (rs, w') \<and>
      diffSummary (rs ! 0) = Some ''No differences'' \<and>
      completionRequests w' = [diffPrompt profileA profileC])"
proof -
  let ?cs = "[pairIdentical, pairDifferent]"
  have h: "0 < BATCH_SIZE" "0 < length ?cs" "js_eq (similarityScore (?cs ! 0)) (Fin 1)"
    by (simp_all add: BATCH_SIZE_def pairIdentical_def)
  from identical_pair_skips_completion [where B = BATCH_SIZE and i = 0 and comparisons = ?cs
      and capi = failingCompletions and w = world0 and ?w0.0 = world0, OF h] h
  show ?thesis
    by (simp add: pairIdentical_def pairDifferent_def world0_def)
qed

text \<open>
  Claim C10. There are successful completion calls after which \<open>generateDiffSummary\<close>
  returns \<open>null\<close>, not the error text: the calls whose first choice has \<open>null\<close> as message
  content. The \<open>diffSummary\<close> of such an item is \<open>null\<close> although the item was neither
  skipped as identical nor failed.
\<close>

theorem absent_content_gives_null_summary:
  assumes "0 < B" and "i < length comparisons"
    and "\<not> js_eq (similarityScore (comparisons ! i)) (Fin 1)"
    and "capi (length (completionRequests w) + length (promptsFor (take i comparisons)))
           (diffPrompt (entryA (comparisons ! i)) (match (comparisons ! i))) =
         Some (None # choices)"
  shows "fst (generateDiffSummary capi (entryA (comparisons ! i)) (match (comparisons ! i))
           (w\<lparr>completionRequests := completionRequests w @ promptsFor (take i comparisons)\<rparr>)) =
           None \<and>
         (\<exists>rs w'. generateDiffSummariesWithBatching B capi comparisons w = Some (rs, w') \<and>
            diffSummary (rs ! i) = None \<and>
            diffSummary (rs ! i) \<noteq> Some ''Error generating diff summary'' \<and>
            diffSummary (rs ! i) \<noteq> Some ''No differences'')"
proof -
  let ?wi = "w\<lparr>completionRequests := completionRequests w @ promptsFor (take i comparisons)\<rparr>"
  let ?rs = "fst (summarizeBatch capi comparisons w)"
  have item: "fst (generateDiffSummary capi (entryA (comparisons ! i)) (match (comparisons ! i)) ?wi) = None"
    using assms(4) by (simp add: generateDiffSummary_result)
  have "diffSummary (?rs ! i) = None"
    using assms(3) item
    by (simp add: summarizeBatch_nth [OF assms(2)] summarizeComparison_diffSummary)
  with generateDiffSummariesWithBatching_closed [OF assms(1), of capi comparisons w] item
  show ?thesis by simp
qed

theorem absent_content_gives_null_summary_witness:
  "(0::nat) < BATCH_SIZE \<and> (0::nat) < length [pairDifferent] \<and>
   \<not> js_eq (similarityScore ([pairDifferent] ! 0)) (Fin 1) \<and>
   nullCompletions 0 (diffPrompt profileA profileC) = Some [None] \<and>
   fst (generateDiffSummary nullCompletions profileA profileC world0) = None \<and>
   (\<exists>rs w'. generateDiffSummariesWithBatching BATCH_SIZE nullCompletions [pairDifferent] world0 =
               Some (rs, w') \<and> diffSummary (rs ! 0) = None)"
proof -
  let ?cs = "[pairDifferent]"
  have h: "0 < BATCH_SIZE" "0 < length ?cs" "\<not> js_eq (similarityScore (?cs ! 0)) (Fin 1)"
    "nullCompletions (length (completionRequests world0) + length (promptsFor (take 0 ?cs)))
       (diffPrompt (entryA (?cs ! 0)) (match (?cs ! 0))) = Some (None # [])"
    by (simp_all add: BATCH_SIZE_def pairDifferent_def nullCompletions_def)
  from absent_content_gives_null_summary [where B = BATCH_SIZE and i = 0 and comparisons = ?cs
      and capi = nullCompletions and w = world0 and choices = "[]", OF h] h
  show ?thesis
    by (auto simp: pairDifferent_def world0_def nullCompletions_def)
qed

section \<open>The run, stage by stage\<close>

lemma strip_fields:
  "id' (strip e) = id' e" "name (strip e) = name e" "title (strip e) = title e"
  "summary (strip e) = summary e" "skills (strip e) = skills e"
  by (simp_all add: strip_def)

lemma findMatches_Inr:
  "findMatches cs as bs = Inr comps \<Longrightarrow>
   length comps = length as \<and>
   (\<forall>i<length as. entryA (comps ! i) = strip (as ! i) \<and>
      match (comps ! i) \<in> strip ` set bs \<and>
      js_gt (similarityScore (comps ! i)) (Fin (- 1)))"
proof (induction as arbitrary: comps)
  case Nil
  then show ?case by simp
next
  case (Cons a as)
  from Cons.prems obtain r rest where
    r: "findBestMatch cs a bs = Inr r" and
    rest: "findMatches cs as bs = Inr rest" and
    comps: "comps = \<lparr>entryA = strip a, match = strip (MatchResult.match r),
                      similarityScore = score r\<rparr> # rest"
    by (auto split: sum.splits)
  from findBestMatch_Inr [OF r] have "MatchResult.match r \<in> set bs" "js_gt (score r) (Fin (- 1))"
    by auto
  with Cons.IH [OF rest] comps show ?case
    by (auto simp: nth_Cons split: nat.splits)
qed

lemma findMatches_Inl:
  "findMatches cs as bs = Inl e \<Longrightarrow> e = NoMatchFound"
proof (induction as)
  case Nil
  then show ?case by simp
next
  case (Cons a as)
  then show ?case
    by (auto split: sum.splits simp: findBestMatch_Inl_iff)
qed

text \<open>A run that got through both embedding stages and the matching writes the report.\<close>

lemma compareDatasets_after_matching:
  assumes "generateEmbeddingsWithBatching BATCH_SIZE eapi datasetA w = Some (Inr EA, w1)"
    and "generateEmbeddingsWithBatching BATCH_SIZE eapi datasetB w1 = Some (Inr EB, w2)"
    and "findMatches cs EA EB = Inr comps"
  shows "compareDatasets cs eapi capi now datasetA datasetB w =
     Some (Inr (),
       w2\<lparr>completionRequests := completionRequests w2 @ promptsFor comps,
          pauses := pauses w2 + (length comps - 1) div BATCH_SIZE,
          reportFile := Some \<lparr>comparisonDate = now, totalComparisons = length comps,
                               results = fst (summarizeBatch capi comps w2)\<rparr>\<rparr>)"
  using assms
  by (simp add: compareDatasets_def Let_def summarizeBatch_length
      generateDiffSummariesWithBatching_closed [OF BATCH_SIZE_pos])

lemma compareDatasets_Inr:
  assumes "compareDatasets cs eapi capi now datasetA datasetB w = Some (Inr u, w')"
  obtains EA w1 EB w2 comps where
    "generateEmbeddingsWithBatching BATCH_SIZE eapi datasetA w = Some (Inr EA, w1)"
    "generateEmbeddingsWithBatching BATCH_SIZE eapi datasetB w1 = Some (Inr EB, w2)"
    "findMatches cs EA EB = Inr comps"
  using assms
  by (auto simp: compareDatasets_def Let_def split: option.splits sum.splits prod.splits)

section \<open>Claims about the run\<close>

text \<open>
  Claim C8. In the report that a run writes, \<open>totalComparisons\<close> is the length of
  \<open>results\<close>; there is one result for each entry of the source dataset, in the order of the
  source dataset; and the two entries of a result are entries without embedding: \<open>entryA\<close>
  is the source entry as it was loaded, and \<open>match\<close> is an entry of the target dataset as it
  was loaded (both have the type \<open>DatasetEntry\<close>, which has no \<open>embedding\<close> field).
\<close>

theorem report_mirrors_source_dataset:
  assumes "compareDatasets cs eapi capi now datasetA datasetB w = Some (Inr u, w')"
  shows "\<exists>r. reportFile w' = Some r \<and> comparisonDate r = now \<and>
           totalComparisons r = length (results r) \<and>
           length (results r) = length datasetA \<and>
           (\<forall>i<length datasetA.
              entryA (results r ! i) = datasetA ! i \<and> match (results r ! i) \<in> set datasetB)"
proof -
  from assms obtain EA w1 EB w2 comps where
    A: "generateEmbeddingsWithBatching BATCH_SIZE eapi datasetA w = Some (Inr EA, w1)" and
    B: "generateEmbeddingsWithBatching BATCH_SIZE eapi datasetB w1 = Some (Inr EB, w2)" and
    M: "findMatches cs EA EB = Inr comps"
    by (rule compareDatasets_Inr)
  let ?rs = "fst (summarizeBatch capi comps w2)"
  let ?r = "\<lparr>comparisonDate = now, totalComparisons = length comps, results = ?rs\<rparr>"
  from compareDatasets_after_matching [OF A B M, of capi now] assms
  have w': "reportFile w' = Some ?r"
    by auto
  note EA = generateEmbeddingsWithBatching_Inr_nth(1,3) [OF BATCH_SIZE_pos A]
  note EB = generateEmbeddingsWithBatching_Inr_nth(3) [OF BATCH_SIZE_pos B]
  note comps = findMatches_Inr [OF M]
  have len: "length ?rs = length datasetA"
    using comps EA(1) by (simp add: summarizeBatch_length)
  have "entryA (?rs ! i) = datasetA ! i \<and> match (?rs ! i) \<in> set datasetB"
    if i: "i < length datasetA" for i
  proof -
    from i EA(1) comps have ic: "i < length comps" "i < length EA" by simp_all
    have "entryA (?rs ! i) = entryA (comps ! i)" "match (?rs ! i) = match (comps ! i)"
      by (simp_all add: summarizeBatch_nth [OF ic(1)] summarizeComparison_fields)
    moreover from comps ic have "entryA (comps ! i) = strip (EA ! i)"
      "match (comps ! i) \<in> strip ` set EB"
      by simp_all
    moreover have "strip (EA ! i) = datasetA ! i"
      using arg_cong [OF EA(2), of "\<lambda>xs. xs ! i"] ic by simp
    moreover have "strip ` set EB = set datasetB"
      using arg_cong [OF EB, of set] by simp
    ultimately show ?thesis by simp
  qed
  with w' len comps show ?thesis
    by (simp add: summarizeBatch_length)
qed

theorem report_mirrors_source_dataset_witness:
  "compareDatasets cosineSimilarity alternatingEmbeddings failingCompletions reportDate
     [profileA] [profileB] world0 = Some (Inr (), worldAfterRun) \<and>
   reportFile worldAfterRun = Some exampleReport \<and>
   comparisonDate exampleReport = reportDate \<and>
   totalComparisons exampleReport = length (results exampleReport) \<and>
   length (results exampleReport) = length [profileA] \<and>
   entryA (results exampleReport ! 0) = profileA \<and>
   match (results exampleReport ! 0) = profileB"
proof -
  have run: "compareDatasets cosineSimilarity alternatingEmbeddings failingCompletions reportDate
     [profileA] [profileB] world0 = Some (Inr (), worldAfterRun)"
    by (simp add: compareDatasets_def BATCH_SIZE_def generateEmbeddingsWithBatching_def
        generateEmbeddings_loop.simps generateDiffSummariesWithBatching_def
        generateDiffSummaries_loop.simps slice_def embedEntry_def generateEmbedding_def
        alternatingEmbeddings_def summarizeComparison_def generateDiffSummary_def
        failingCompletions_def findBestMatch_def cosineSimilarity_def dot_def strip_def
        world0_def Let_def profileA_def profileB_def worldAfterRun_def exampleReport_def)
  from report_mirrors_source_dataset [OF run] obtain r where
    "reportFile worldAfterRun = Some r" "comparisonDate r = reportDate"
    "totalComparisons r = length (results r)" "length (results r) = length [profileA]"
    "\<forall>i<length [profileA]. entryA (results r ! i) = [profileA] ! i \<and>
        match (results r ! i) \<in> set [profileB]"
    by blast
  moreover from this(1) have "r = exampleReport"
    by (simp add: worldAfterRun_def)
  ultimately show ?thesis
    using run by simp
qed

lemma embedding_failure_stage:
  assumes "0 < B" and "i < length entries"
    and "fst (generateEmbedding eapi (createTextRepresentation (entries ! i))
           (w\<lparr>embeddingRequests :=
                embeddingRequests w @ map createTextRepresentation (take i entries)\<rparr>)) = Inl e"
  shows "\<exists>w'. generateEmbeddingsWithBatching B eapi entries w =
               Some (Inl EmbeddingRequestFailed, w') \<and>
             reportFile w' = reportFile w \<and> completionRequests w' = completionRequests w"
proof -
  have bad: "fst (embedBatch eapi entries w) ! i = Inl e"
    using assms(3) by (simp add: embedBatch_nth [OF assms(2)] embedEntry_Inl_iff)
  have "\<not> (\<exists>es. fst (embedBatch eapi entries w) = map Inr es)"
  proof
    assume "\<exists>es. fst (embedBatch eapi entries w) = map Inr es"
    then obtain es where es: "fst (embedBatch eapi entries w) = map Inr es" ..
    from arg_cong [OF es, of length] have "length es = length entries"
      by (simp add: embedBatch_length)
    with assms(2) es have "fst (embedBatch eapi entries w) ! i = Inr (es ! i)"
      by simp
    with bad show False by simp
  qed
  with generateEmbeddingsWithBatching_cases [OF assms(1), of eapi entries w]
  show ?thesis by blast
qed


text \<open>
  Claim C5. When the embedding request of an entry throws, the embedding stage does not
  catch it: \<open>generateEmbeddingsWithBatching\<close> ends with the error, and so does the run,
  whether the entry is in the source or in the target dataset; no report is written and no
  completion request is sent.
\<close>

theorem embedding_failure_aborts_run:
  assumes "i < length entries"
    and "fst (generateEmbedding eapi (createTextRepresentation (entries ! i))
           (w\<lparr>embeddingRequests :=
                embeddingRequests w @ map createTextRepresentation (take i entries)\<rparr>)) = Inl e"
  shows "(0 < B \<longrightarrow>
            (\<exists>w'. generateEmbeddingsWithBatching B eapi entries w =
                     Some (Inl EmbeddingRequestFailed, w') \<and>
                   reportFile w' = reportFile w)) \<and>
         (\<exists>w'. compareDatasets cs eapi capi now entries datasetB w =
                  Some (Inl EmbeddingRequestFailed, w') \<and>
                reportFile w' = reportFile w \<and> completionRequests w' = completionRequests w) \<and>
         (\<forall>datasetA w0 EA.
            generateEmbeddingsWithBatching BATCH_SIZE eapi datasetA w0 = Some (Inr EA, w) \<longrightarrow>
            (\<exists>w'. compareDatasets cs eapi capi now datasetA entries w0 =
                     Some (Inl EmbeddingRequestFailed, w') \<and>
                   reportFile w' = reportFile w0 \<and>
                   completionRequests w' = completionRequests w0))"
proof (intro conjI impI allI)
  assume "0 < B"
  from embedding_failure_stage [OF this assms]
  show "\<exists>w'. generateEmbeddingsWithBatching B eapi entries w =
                     Some (Inl EmbeddingRequestFailed, w') \<and> reportFile w' = reportFile w"
    by blast
next
  from embedding_failure_stage [OF BATCH_SIZE_pos assms] obtain w' where
    "generateEmbeddingsWithBatching BATCH_SIZE eapi entries w =
       Some (Inl EmbeddingRequestFailed, w')"
    "reportFile w' = reportFile w" "completionRequests w' = completionRequests w"
    by blast
  then show "\<exists>w'. compareDatasets cs eapi capi now entries datasetB w =
                  Some (Inl EmbeddingRequestFailed, w') \<and>
                reportFile w' = reportFile w \<and> completionRequests w' = completionRequests w"
    by (simp add: compareDatasets_def)
next
  fix datasetA w0 EA
  assume A: "generateEmbeddingsWithBatching BATCH_SIZE eapi datasetA w0 = Some (Inr EA, w)"
  from generateEmbeddingsWithBatching_Inr(2) [OF BATCH_SIZE_pos A]
  have w: "reportFile w = reportFile w0" "completionRequests w = completionRequests w0"
    by simp_all
  from embedding_failure_stage [OF BATCH_SIZE_pos assms] obtain w' where
    "generateEmbeddingsWithBatching BATCH_SIZE eapi entries w =
       Some (Inl EmbeddingRequestFailed, w')"
    "reportFile w' = reportFile w" "completionRequests w' = completionRequests w"
    by blast
  with A w show "\<exists>w'. compareDatasets cs eapi capi now datasetA entries w0 =
                     Some (Inl EmbeddingRequestFailed, w') \<and>
                   reportFile w' = reportFile w0 \<and>
                   completionRequests w' = completionRequests w0"
    by (simp add: compareDatasets_def)
qed

theorem embedding_failure_aborts_run_witness:
  "0 < length [profileB] \<and>
   fst (generateEmbedding secondRequestFails (createTextRepresentation ([profileB] ! 0))
     (worldA\<lparr>embeddingRequests :=
         embeddingRequests worldA @ map createTextRepresentation (take 0 [profileB])\<rparr>)) =
     Inl EmbeddingRequestFailed \<and>
   0 < BATCH_SIZE \<and>
   (\<exists>w'. generateEmbeddingsWithBatching BATCH_SIZE secondRequestFails [profileB] worldA =
            Some (Inl EmbeddingRequestFailed, w') \<and> reportFile w' = None) \<and>
   generateEmbeddingsWithBatching BATCH_SIZE secondRequestFails [profileA] world0 =
     Some (Inr [embeddedA], worldA) \<and>
   (\<exists>w'. compareDatasets cosineSimilarity secondRequestFails failingCompletions reportDate
            [profileA] [profileB] world0 = Some (Inl EmbeddingRequestFailed, w') \<and>
          reportFile w' = None \<and> completionRequests w' = [])"
proof -
  have h1: "0 < length [profileB]" by simp
  have h2: "fst (generateEmbedding secondRequestFails (createTextRepresentation ([profileB] ! 0))
     (worldA\<lparr>embeddingRequests :=
         embeddingRequests worldA @ map createTextRepresentation (take 0 [profileB])\<rparr>)) =
     Inl EmbeddingRequestFailed"
    by (simp add: generateEmbedding_def secondRequestFails_def worldA_def)
  have h3: "0 < BATCH_SIZE" by (simp add: BATCH_SIZE_def)
  have stageA: "generateEmbeddingsWithBatching BATCH_SIZE secondRequestFails [profileA] world0 =
     Some (Inr [embeddedA], worldA)"
    by (simp add: generateEmbeddingsWithBatching_def generateEmbeddings_loop.simps slice_def
        BATCH_SIZE_def embedEntry_def generateEmbedding_def secondRequestFails_def Let_def
        world0_def worldA_def profileA_def embeddedA_def createTextRepresentation_def)
  note inst = embedding_failure_aborts_run [OF h1 h2, of BATCH_SIZE cosineSimilarity
      failingCompletions reportDate "[profileC]"]
  from inst h3 have "\<exists>w'. generateEmbeddingsWithBatching BATCH_SIZE secondRequestFails [profileB] worldA =
            Some (Inl EmbeddingRequestFailed, w') \<and> reportFile w' = reportFile worldA"
    by blast
  then have s1: "\<exists>w'. generateEmbeddingsWithBatching BATCH_SIZE secondRequestFails [profileB] worldA =
            Some (Inl EmbeddingRequestFailed, w') \<and> reportFile w' = None"
    by (simp add: worldA_def)
  from inst stageA have "\<exists>w'. compareDatasets cosineSimilarity secondRequestFails
            failingCompletions reportDate [profileA] [profileB] world0 =
              Some (Inl EmbeddingRequestFailed, w') \<and>
            reportFile w' = reportFile world0 \<and> completionRequests w' = completionRequests world0"
    by blast
  then have s2: "\<exists>w'. compareDatasets cosineSimilarity secondRequestFails failingCompletions
            reportDate [profileA] [profileB] world0 = Some (Inl EmbeddingRequestFailed, w') \<and>
          reportFile w' = None \<and> completionRequests w' = []"
    by (simp add: world0_def)
  from h1 h2 h3 s1 stageA s2 show ?thesis by blast
qed




end
